theory Spec2Isabelle
  imports Complex_Main "HOL-Library.AList"
begin

section \<open>Time values of the host runtime\<close>

text \<open>
  The planner is browser JavaScript; its dates are ECMAScript \<open>Date\<close> objects. A
  \<open>Date\<close> is modelled by its time value, the number of milliseconds since
  1970-01-01T00:00Z, and the runtime's date arithmetic by the abstract operations of
  ECMA-262 (Day, DayFromYear, YearFromTime, MonthFromTime, DateFromTime, WeekDay,
  MakeDay, MakeDate).

  The source reads week starts and the clock through the local-time getters
  (\<open>getFullYear\<close>, \<open>getMonth\<close>, \<open>getDate\<close>, \<open>getHours\<close>, \<open>getMinutes\<close>). The model fixes
  the host's offset from UTC at zero, so each local getter is its UTC counterpart. A
  host east of UTC by less than a day (the application is French, UTC+1 or UTC+2) reads
  the same calendar date from a UTC midnight, hence the same week keys; a host west
  of UTC reads the day before and is outside this model. The clock \<open>now\<close> is taken as
  the host's wall time.
\<close>

datatype date = Date int

fun valueOf :: "date \<Rightarrow> int" where
  "valueOf (Date t) = t"

definition msPerDay :: int where
  "msPerDay = 86400000"

definition Day :: "int \<Rightarrow> int" where
  "Day t = t div msPerDay"

definition TimeWithinDay :: "int \<Rightarrow> int" where
  "TimeWithinDay t = t mod msPerDay"

definition DaysInYear :: "int \<Rightarrow> int" where
  "DaysInYear y =
     (if y mod 4 \<noteq> 0 then 365 else if y mod 100 \<noteq> 0 then 366
      else if y mod 400 \<noteq> 0 then 365 else 366)"

definition DayFromYear :: "int \<Rightarrow> int" where
  "DayFromYear y =
     365 * (y - 1970) + (y - 1969) div 4 - (y - 1901) div 100 + (y - 1601) div 400"

lemma div_step:
  fixes a n :: int
  assumes "0 < n"
  shows "(a + 1) div n = a div n + (if (a + 1) mod n = 0 then 1 else 0)"
proof (cases "(a + 1) mod n = 0")
  case True
  then obtain k where k: "a + 1 = n * k" by (auto simp: mod_eq_0_iff_dvd)
  have "a = (n - 1) + n * (k - 1)" using k by (simp add: algebra_simps)
  hence "a div n = ((n - 1) + n * (k - 1)) div n" by simp
  also have "\<dots> = (n - 1) div n + (k - 1)" using assms by simp
  also have "(n - 1) div n = 0" using assms by (simp add: div_pos_pos_trivial)
  finally have "a div n = k - 1" by simp
  moreover have "(a + 1) div n = k" using k assms by simp
  ultimately show ?thesis using True by simp
next
  case False
  have r: "0 \<le> a mod n" "a mod n < n" using assms by simp_all
  have "a mod n + 1 \<noteq> n"
  proof
    assume h: "a mod n + 1 = n"
    have "(a + 1) mod n = (a mod n + 1) mod n" by (simp add: mod_add_left_eq)
    with h have "(a + 1) mod n = 0" by simp
    with False show False by simp
  qed
  with r have lt: "a mod n + 1 < n" by simp
  have e1: "a + 1 = (a mod n + 1) + n * (a div n)" by (simp add: algebra_simps)
  have e2: "((a mod n + 1) + n * (a div n)) div n = (a mod n + 1) div n + a div n"
    using div_mult_self2 [of n "a mod n + 1" "a div n"] assms by (simp only: add.commute less_irrefl)
  have e3: "(a mod n + 1) div n = 0" using r lt by (simp add: div_pos_pos_trivial)
  have "(a + 1) div n = ((a mod n + 1) + n * (a div n)) div n" by (subst e1) (rule refl)
  hence "(a + 1) div n = a div n" by (simp only: e2 e3 add_0)
  thus ?thesis using False by simp
qed

lemma mod_shift: "((y::int) - n * k) mod n = y mod n"
proof -
  have "y - n * k = y + n * (- k)" by simp
  thus ?thesis by (simp only: mod_mult_self2)
qed

lemma DayFromYear_Suc: "DayFromYear (y + 1) = DayFromYear y + DaysInYear y"
proof -
  have m4: "(y - 1968) mod 4 = y mod 4" using mod_shift [of y 4 492] by simp
  have m100: "(y - 1900) mod 100 = y mod 100" using mod_shift [of y 100 19] by simp
  have m400: "(y - 1600) mod 400 = y mod 400" using mod_shift [of y 400 4] by simp
  have a: "(y + 1 - 1969) div 4 = (y - 1969) div 4 + (if y mod 4 = 0 then 1 else 0)"
    using div_step [of 4 "y - 1969"] m4 by (simp add: algebra_simps)
  have b: "(y + 1 - 1901) div 100 = (y - 1901) div 100 + (if y mod 100 = 0 then 1 else 0)"
    using div_step [of 100 "y - 1901"] m100 by (simp add: algebra_simps)
  have c: "(y + 1 - 1601) div 400 = (y - 1601) div 400 + (if y mod 400 = 0 then 1 else 0)"
    using div_step [of 400 "y - 1601"] m400 by (simp add: algebra_simps)
  have d: "y mod 100 = 0 \<Longrightarrow> y mod 4 = 0"
    by (auto simp: mod_eq_0_iff_dvd elim: dvd_trans [rotated])
  have e: "y mod 400 = 0 \<Longrightarrow> y mod 100 = 0"
    by (auto simp: mod_eq_0_iff_dvd elim: dvd_trans [rotated])
  show ?thesis
    unfolding DayFromYear_def DaysInYear_def a b c using d e by auto
qed

lemma DaysInYear_pos: "365 \<le> DaysInYear y"
  by (simp add: DaysInYear_def)

function year_search :: "int \<Rightarrow> int \<Rightarrow> int" where
  "year_search d y = (if DayFromYear (y + 1) \<le> d then year_search d (y + 1) else y)"
  by pat_completeness auto
termination
proof (relation "measure (\<lambda>(d, y). nat (d + 1 - DayFromYear (y + 1)))")
  show "wf (measure (\<lambda>(d, y). nat (d + 1 - DayFromYear (y + 1))))"
    by simp
next
  fix d y :: int
  assume "DayFromYear (y + 1) \<le> d"
  moreover have "DayFromYear (y + 1 + 1) = DayFromYear (y + 1) + DaysInYear (y + 1)"
    by (rule DayFromYear_Suc)
  moreover have "365 \<le> DaysInYear (y + 1)"
    by (rule DaysInYear_pos)
  ultimately show "((d, y + 1), (d, y)) \<in> measure (\<lambda>(d, y). nat (d + 1 - DayFromYear (y + 1)))"
    by simp
qed

declare year_search.simps [simp del]

text \<open>
  \<open>YearFromTime t\<close> is the largest year whose first day is not after \<open>t\<close>. The search
  starts from a year that is certainly not too late (a year has at most 366 and at
  least 365 days) and walks forward.
\<close>

definition YearFromTime :: "int \<Rightarrow> int" where
  "YearFromTime t =
     year_search (Day t) (if 0 \<le> Day t then 1970 + Day t div 366 else 1970 + Day t div 365)"

definition InLeapYear :: "int \<Rightarrow> int" where
  "InLeapYear t = (if DaysInYear (YearFromTime t) = 366 then 1 else 0)"

definition DayWithinYear :: "int \<Rightarrow> int" where
  "DayWithinYear t = Day t - DayFromYear (YearFromTime t)"

text \<open>The day within the year on which month \<open>m\<close> (0 to 11) begins.\<close>

definition monthStart :: "int \<Rightarrow> int \<Rightarrow> int" where
  "monthStart m leap =
     (if m = 0 then 0 else if m = 1 then 31 else if m = 2 then 59 + leap
      else if m = 3 then 90 + leap else if m = 4 then 120 + leap
      else if m = 5 then 151 + leap else if m = 6 then 181 + leap
      else if m = 7 then 212 + leap else if m = 8 then 243 + leap
      else if m = 9 then 273 + leap else if m = 10 then 304 + leap else 334 + leap)"

definition MonthFromTime :: "int \<Rightarrow> int" where
  "MonthFromTime t =
     (let dwy = DayWithinYear t; leap = InLeapYear t
      in if dwy < 31 then 0 else if dwy < 59 + leap then 1 else if dwy < 90 + leap then 2
         else if dwy < 120 + leap then 3 else if dwy < 151 + leap then 4
         else if dwy < 181 + leap then 5 else if dwy < 212 + leap then 6
         else if dwy < 243 + leap then 7 else if dwy < 273 + leap then 8
         else if dwy < 304 + leap then 9 else if dwy < 334 + leap then 10 else 11)"

definition DateFromTime :: "int \<Rightarrow> int" where
  "DateFromTime t = DayWithinYear t - monthStart (MonthFromTime t) (InLeapYear t) + 1"

definition WeekDay :: "int \<Rightarrow> int" where
  "WeekDay t = (Day t + 4) mod 7"

definition MakeDay :: "int \<Rightarrow> int \<Rightarrow> int \<Rightarrow> int" where
  "MakeDay year month dt =
     (let ym = year + month div 12; mn = month mod 12
      in DayFromYear ym + monthStart mn (if DaysInYear ym = 366 then 1 else 0) + dt - 1)"

definition MakeDate :: "int \<Rightarrow> int \<Rightarrow> int" where
  "MakeDate day time = day * msPerDay + time"

text \<open>\<open>Date.UTC(year, month, date, hours, minutes)\<close>; a year from 0 to 99 means 1900 + year.\<close>

definition Date_UTC :: "int \<Rightarrow> int \<Rightarrow> int \<Rightarrow> int \<Rightarrow> int \<Rightarrow> date" where
  "Date_UTC year month dt hours minutes =
     Date (MakeDate (MakeDay (if 0 \<le> year \<and> year \<le> 99 then 1900 + year else year) month dt)
                    (hours * 3600000 + minutes * 60000))"

fun getUTCFullYear :: "date \<Rightarrow> int" where
  "getUTCFullYear (Date t) = YearFromTime t"

fun getUTCMonth :: "date \<Rightarrow> int" where
  "getUTCMonth (Date t) = MonthFromTime t"

fun getUTCDate :: "date \<Rightarrow> int" where
  "getUTCDate (Date t) = DateFromTime t"

fun getUTCDay :: "date \<Rightarrow> int" where
  "getUTCDay (Date t) = WeekDay t"

fun getUTCHours :: "date \<Rightarrow> int" where
  "getUTCHours (Date t) = (t div 3600000) mod 24"

fun getUTCMinutes :: "date \<Rightarrow> int" where
  "getUTCMinutes (Date t) = (t div 60000) mod 60"

fun setUTCDate :: "date \<Rightarrow> int \<Rightarrow> date" where
  "setUTCDate (Date t) dt =
     Date (MakeDate (MakeDay (YearFromTime t) (MonthFromTime t) dt) (TimeWithinDay t))"

text \<open>The local-time getters, at offset zero.\<close>

definition getFullYear :: "date \<Rightarrow> int" where
  "getFullYear d = getUTCFullYear d"

definition getMonth :: "date \<Rightarrow> int" where
  "getMonth d = getUTCMonth d"

definition getDate :: "date \<Rightarrow> int" where
  "getDate d = getUTCDate d"

definition getHours :: "date \<Rightarrow> int" where
  "getHours d = getUTCHours d"

definition getMinutes :: "date \<Rightarrow> int" where
  "getMinutes d = getUTCMinutes d"

text \<open>\<open>new Date(year, month, day)\<close>: local midnight, which at offset zero is \<open>Date.UTC\<close>.\<close>

definition new_Date :: "int \<Rightarrow> int \<Rightarrow> int \<Rightarrow> date" where
  "new_Date year month dt = Date_UTC year month dt 0 0"

section \<open>time-utils.js: ISO weeks and the calendar\<close>

text \<open>
  \<open>Date.prototype.getWeek\<close>. The quotient by 86400000 is exact (both dates are UTC
  midnights), and \<open>Math.ceil (n / 7)\<close> of an integer \<open>n\<close> is \<open>- ((- n) div 7)\<close>.
\<close>

definition getWeek :: "date \<Rightarrow> int" where
  "getWeek this =
     (let d = Date_UTC (getFullYear this) (getMonth this) (getDate this) 0 0;
          day = (if getUTCDay d = 0 then 7 else getUTCDay d);
          d = setUTCDate d (getUTCDate d + 4 - day);
          n = (valueOf d - valueOf (Date_UTC (getUTCFullYear d) 0 1 0 0)) div 86400000 + 1
      in - ((- n) div 7))"

definition getISOWeeksInYear :: "int \<Rightarrow> int" where
  "getISOWeeksInYear y = (let d = Date_UTC y 11 31 0 0; w = getWeek d in if w = 1 then 52 else w)"

definition getDateOfISOWeek :: "int \<Rightarrow> int \<Rightarrow> date" where
  "getDateOfISOWeek w y =
     (let d = Date_UTC y 0 (1 + (w - 1) * 7) 0 0;
          day = (if getUTCDay d = 0 then 7 else getUTCDay d)
      in setUTCDate d (getUTCDate d + (1 - day + (if day \<le> 4 then 0 else 7))))"

text \<open>\<open>String(n)\<close> for an integer, and \<open>padStart\<close>.\<close>

function digits :: "int \<Rightarrow> string" where
  "digits n = (if n < 10 then [''0123456789'' ! nat n]
               else digits (n div 10) @ [''0123456789'' ! nat (n mod 10)])"
  by pat_completeness auto
termination
  by (relation "measure nat") auto

declare digits.simps [simp del]

definition String_of :: "int \<Rightarrow> string" where
  "String_of i = (if i < 0 then CHR ''-'' # digits (- i) else digits i)"

definition padStart :: "nat \<Rightarrow> char \<Rightarrow> string \<Rightarrow> string" where
  "padStart n c s = replicate (n - length s) c @ s"

text \<open>
  A week of the calendar. The source's record also carries a \<open>label\<close>, a display text
  (\<open>dd/mm - dd/mm\<close>) that no computation reads; it is left out. The field \<open>id\<close> is
  \<open>wid\<close> and \<open>end\<close> is \<open>fin\<close> here.
\<close>

record week =
  wid :: string
  start :: date
  fin :: date

definition week_of :: "int \<Rightarrow> int \<Rightarrow> week" where
  "week_of y w =
     (let s = getDateOfISOWeek w y;
          e = setUTCDate s (getUTCDate s + 6)
      in \<lparr> wid = ''S'' @ String_of w @ ''/'' @ String_of y, start = s, fin = e \<rparr>)"

definition weeks_of :: "int \<Rightarrow> week list" where
  "weeks_of y = map (week_of y) [1 .. getISOWeeksInYear y]"

definition weeks :: "week list" where
  "weeks = concat (map weeks_of [2024 .. 2028])"

text \<open>The key \<open>`${w.start.getFullYear()}-W${weekNo}-1`\<close> under which a week is looked up.\<close>

definition weekKey :: "week \<Rightarrow> string" where
  "weekKey w = String_of (getFullYear (start w)) @ ''-W''
             @ padStart 2 (CHR ''0'') (String_of (getWeek (start w))) @ ''-1''"


section \<open>The stores\<close>

text \<open>
  An availability value is either a bare number of minutes (legacy records) or an
  object \<open>{minutes, updatedAt}\<close>. \<open>data\<close> maps a preparer's name to a map from week
  keys to such values; objects are association lists in enumeration order.
\<close>

datatype stored = Num int | Obj int string

type_synonym planif = "(string \<times> int) list"

text \<open>
  A job. \<open>endDate\<close> is the text \<open>jj/mm/aaaa\<close>, held here as the three numbers (day,
  month, year) that \<open>split('/').map(Number)\<close> reads from it. \<open>planification\<close>,
  \<open>ChargeRestante\<close> and \<open>tempsRestant\<close> are properties a job object may lack. The
  field \<open>id\<close> is \<open>ident\<close> and \<open>label\<close> is \<open>libelle\<close> here.
\<close>

record chantier =
  ident :: string
  libelle :: string
  status :: string
  prepTime :: int
  endDate :: "int \<times> int \<times> int"
  preparateur :: "string option"
  planification :: "planif option"
  ChargeRestante :: "int option"
  tempsRestant :: "int option"

text \<open>
  The globals \<open>data\<close> and \<open>chantiers\<close>. \<open>chantiers\<close> is held as the list
  \<open>Object.values(chantiers)\<close>; a job object is referred to by its position in it.
\<close>

record etat =
  data :: "(string \<times> (string \<times> stored) list) list"
  chantiers :: "chantier list"

definition statuts_actifs :: "string list" where
  "statuts_actifs = [''Nouveau'', ''Pr'' @ [CHR 0xC3, CHR 0xA9] @ ''pa. en cours'']"

definition actif :: "chantier \<Rightarrow> bool" where
  "actif ch = (status ch \<in> set statuts_actifs)"

text \<open>\<open>ch.planification || {}\<close>\<close>

definition planif_of :: "chantier \<Rightarrow> planif" where
  "planif_of ch = (case planification ch of None \<Rightarrow> [] | Some p \<Rightarrow> p)"

text \<open>\<open>c.planification[key] || 0\<close>\<close>

definition planifie :: "string \<Rightarrow> chantier \<Rightarrow> int" where
  "planifie key c = (case map_of (planif_of c) key of None \<Rightarrow> 0 | Some v \<Rightarrow> v)"

text \<open>\<open>stored ? (typeof stored === 'object' ? stored.minutes : stored) : 0\<close>\<close>

fun minutes_of :: "stored option \<Rightarrow> int" where
  "minutes_of None = 0"
| "minutes_of (Some (Obj m u)) = m"
| "minutes_of (Some (Num n)) = (if n = 0 then 0 else n)"

text \<open>\<open>parseDateFR\<close>, as the time value the sort compares.\<close>

fun parseDateFR :: "int \<times> int \<times> int \<Rightarrow> int" where
  "parseDateFR (day, month, year) = valueOf (new_Date year (month - 1) day)"

section \<open>planning-logic.js: repartitionAutomatique\<close>

text \<open>
  The calendar \<open>weeks\<close> is a global constant of the source; the functions below take
  it as the parameter \<open>ws\<close>, and the program is their instance at \<^term>\<open>weeks\<close>.
\<close>

datatype issue = Abandon | Termine

text \<open>The anchor: the clock's wall time, moved back one day on a Sunday.\<close>

definition nowFixed :: "date \<Rightarrow> date" where
  "nowFixed now =
     (let nowUTC = Date_UTC (getFullYear now) (getMonth now) (getDate now)
                            (getHours now) (getMinutes now)
      in if getUTCDay nowUTC = 0 then setUTCDate nowUTC (getUTCDate nowUTC - 1) else nowUTC)"

text \<open>\<open>weekMap[key] = { week: w, idx }\<close>, a later week replacing an earlier one of the same key.\<close>

fun weekMap_put :: "nat \<times> week \<Rightarrow> (string \<times> week \<times> nat) list \<Rightarrow> (string \<times> week \<times> nat) list" where
  "weekMap_put (idx, w) m = AList.update (weekKey w) (w, idx) m"

definition weekMap :: "week list \<Rightarrow> (string \<times> week \<times> nat) list" where
  "weekMap ws = fold weekMap_put (List.enumerate 0 ws) []"

text \<open>\<open>findIndex\<close>, with \<open>None\<close> for -1.\<close>

fun findIndex_from :: "nat \<Rightarrow> ('a \<Rightarrow> bool) \<Rightarrow> 'a list \<Rightarrow> nat option" where
  "findIndex_from i P [] = None"
| "findIndex_from i P (x # xs) = (if P x then Some i else findIndex_from (i + 1) P xs)"

definition findIndex :: "('a \<Rightarrow> bool) \<Rightarrow> 'a list \<Rightarrow> nat option" where
  "findIndex P xs = findIndex_from 0 P xs"

definition contient :: "date \<Rightarrow> week \<Rightarrow> bool" where
  "contient t w = (valueOf (start w) \<le> valueOf t \<and> valueOf (fin w) \<ge> valueOf t)"

definition currentWeekIdx :: "week list \<Rightarrow> date \<Rightarrow> nat option" where
  "currentWeekIdx ws now = findIndex (contient (nowFixed now)) ws"

text \<open>\<open>weekMap[key] && weekMap[key].idx >= currentWeekIdx\<close>, and the same with \<open><\<close>.\<close>

definition dansFutur :: "week list \<Rightarrow> nat \<Rightarrow> string \<Rightarrow> bool" where
  "dansFutur ws cur key = (case map_of (weekMap ws) key of None \<Rightarrow> False | Some e \<Rightarrow> snd e \<ge> cur)"

definition dansPasse :: "week list \<Rightarrow> nat \<Rightarrow> string \<Rightarrow> bool" where
  "dansPasse ws cur key = (case map_of (weekMap ws) key of None \<Rightarrow> False | Some e \<Rightarrow> snd e < cur)"

text \<open>Step 4.5: jobs that are not active lose their entries from the current week on.\<close>

definition deprog_key :: "week list \<Rightarrow> nat \<Rightarrow> string \<Rightarrow> planif \<Rightarrow> planif" where
  "deprog_key ws cur key p = (if dansFutur ws cur key then AList.delete key p else p)"

definition deprogrammer :: "week list \<Rightarrow> nat \<Rightarrow> chantier \<Rightarrow> chantier" where
  "deprogrammer ws cur ch =
     (case planification ch of
        None \<Rightarrow> ch
      | Some p \<Rightarrow>
          if \<not> actif ch then ch\<lparr>planification := Some (fold (deprog_key ws cur) (map fst p) p)\<rparr>
          else ch)"

text \<open>Step 5, for one preparer.\<close>

definition dispo_entry :: "(string \<times> (string \<times> stored) list) list \<Rightarrow> string \<Rightarrow> string \<Rightarrow> string \<times> int" where
  "dispo_entry d name key =
     (key, minutes_of (case map_of d name of None \<Rightarrow> None | Some m \<Rightarrow> map_of m key))"

definition dispoParSemaine :: "week list \<Rightarrow> (string \<times> (string \<times> stored) list) list \<Rightarrow> string \<Rightarrow> (string \<times> int) list" where
  "dispoParSemaine ws d name = map (dispo_entry d name) (map fst (weekMap ws))"

definition selectionne :: "string \<Rightarrow> chantier \<Rightarrow> bool" where
  "selectionne name ch = (preparateur ch = Some name \<and> actif ch)"

definition echeance :: "nat \<times> chantier \<Rightarrow> int" where
  "echeance p = parseDateFR (endDate (snd p))"

definition selectionne_ref :: "string \<Rightarrow> nat \<times> chantier \<Rightarrow> bool" where
  "selectionne_ref name p = selectionne name (snd p)"

text \<open>
  \<open>chantierList\<close>: the selected job objects, each with its position in the store,
  in a stable ascending sort on the deadline.
\<close>

definition chantierList :: "chantier list \<Rightarrow> string \<Rightarrow> (nat \<times> chantier) list" where
  "chantierList chs name =
     sort_key echeance (filter (selectionne_ref name) (List.enumerate 0 chs))"

definition passe_entry :: "week list \<Rightarrow> nat \<Rightarrow> string \<times> int \<Rightarrow> bool" where
  "passe_entry ws cur e = dansPasse ws cur (fst e)"

text \<open>The first \<open>forEach\<close>: keep the past entries, note the remaining load.\<close>

definition reinitialiser :: "week list \<Rightarrow> nat \<Rightarrow> chantier \<Rightarrow> chantier" where
  "reinitialiser ws cur ch =
     (let oldPlanif = planif_of ch;
          pastPlanif = filter (passe_entry ws cur) oldPlanif;
          fait = sum_list (map snd pastPlanif)
      in ch\<lparr>planification := Some pastPlanif,
            ChargeRestante := Some (max 0 (prepTime ch - fait))\<rparr>)"

text \<open>
  The body of \<open>planWeeks.forEach\<close> for the job \<open>ch\<close>, whose list neighbours are
  \<open>avant\<close> (already planned in this pass) and \<open>apres\<close> (not yet).
\<close>

fun planifier :: "(string \<times> int) list \<Rightarrow> chantier list \<Rightarrow> chantier list \<Rightarrow> week
                   \<Rightarrow> chantier \<times> int \<Rightarrow> chantier \<times> int" where
  "planifier dispoPS avant apres w (ch, remainingToPlan) =
     (if remainingToPlan \<le> 0 then (ch, remainingToPlan)
      else
        let key = weekKey w;
            dispo = (case map_of dispoPS key of None \<Rightarrow> 0 | Some v \<Rightarrow> v);
            already = sum_list (map (planifie key) (avant @ ch # apres));
            free = max 0 (dispo - already);
            toPlan = min remainingToPlan free
        in if toPlan > 0
           then (ch\<lparr>planification := Some (AList.update key (planifie key ch + toPlan) (planif_of ch))\<rparr>,
                 remainingToPlan - toPlan)
           else (ch, remainingToPlan))"

definition planifier_chantier :: "(string \<times> int) list \<Rightarrow> week list \<Rightarrow> chantier list \<Rightarrow> chantier
                                   \<Rightarrow> chantier list \<Rightarrow> chantier" where
  "planifier_chantier dispoPS planWeeks avant ch apres =
     fst (fold (planifier dispoPS avant apres) planWeeks
               (ch, prepTime ch - sum_list (map snd (planif_of ch))))"

text \<open>The second \<open>forEach\<close>, over the sorted list.\<close>

fun repartir :: "(string \<times> int) list \<Rightarrow> week list \<Rightarrow> chantier list \<Rightarrow> chantier list \<Rightarrow> chantier list" where
  "repartir dispoPS planWeeks avant [] = avant"
| "repartir dispoPS planWeeks avant (ch # apres) =
     repartir dispoPS planWeeks (avant @ [planifier_chantier dispoPS planWeeks avant ch apres]) apres"

text \<open>The job objects of the list are those of the store: their new state is written back.\<close>

fun ecrire :: "nat \<times> chantier \<Rightarrow> chantier list \<Rightarrow> chantier list" where
  "ecrire (i, ch) chs = chs[i := ch]"

definition traiter_preparateur :: "week list \<Rightarrow> nat \<Rightarrow> (string \<times> (string \<times> stored) list) list
                                    \<Rightarrow> string \<Rightarrow> chantier list \<Rightarrow> chantier list" where
  "traiter_preparateur ws cur d name chs =
     (let cl = chantierList chs name
      in if cl = [] then chs
         else
           let dispoPS = dispoParSemaine ws d name;
               planWeeks = drop cur ws;
               jobs = repartir dispoPS planWeeks [] (map (reinitialiser ws cur) (map snd cl))
           in fold ecrire (zip (map fst cl) jobs) chs)"

text \<open>The last \<open>forEach\<close>: \<open>delete ch.tempsRestant\<close>.\<close>

definition nettoyer :: "chantier \<Rightarrow> chantier" where
  "nettoyer ch = ch\<lparr>tempsRestant := None\<rparr>"

definition repartitionAutomatique :: "week list \<Rightarrow> date \<Rightarrow> etat \<Rightarrow> issue \<times> etat" where
  "repartitionAutomatique ws now s =
     (case currentWeekIdx ws now of
        None \<Rightarrow> (Abandon, s)
      | Some cur \<Rightarrow>
          (Termine,
           s\<lparr>chantiers :=
               map nettoyer
                 (fold (traiter_preparateur ws cur (data s)) (map fst (data s))
                    (map (deprogrammer ws cur) (chantiers s)))\<rparr>))"

section \<open>planning-display.js: the margins, tensions and badges of renderGrid\<close>

text \<open>
  Hours are JavaScript numbers in the source; here they are exact rationals.
  \<open>Infinity\<close>, the initial value of \<open>minM\<close>, is a value of its own.
\<close>

datatype nombre = Fini rat | Infini

text \<open>\<open>m < minM\<close>\<close>

fun inferieur :: "rat \<Rightarrow> nombre \<Rightarrow> bool" where
  "inferieur m (Fini v) = (m < v)"
| "inferieur m Infini = True"

text \<open>
  An entry of \<open>margesGlobales[name]\<close>. \<open>Tdisp\<close> is absent until the second pass;
  \<open>badge\<close> is \<open>null\<close> or a number.
\<close>

record calc =
  dispo :: rat
  C :: rat
  CA :: rat
  M :: rat
  Tdisp :: "nombre option"
  badge :: "rat option"

type_synonym marges = "(string \<times> calc) list"

text \<open>\<open>nowId\<close> and \<open>currentIndex\<close>, from the clock read when the page loads.\<close>

definition nowId :: "date \<Rightarrow> string" where
  "nowId now = ''S'' @ String_of (getWeek now) @ ''/'' @ String_of (getFullYear now)"

definition est_courante :: "string \<Rightarrow> week \<Rightarrow> bool" where
  "est_courante ident_now w = (wid w = ident_now)"

definition currentIndex :: "week list \<Rightarrow> date \<Rightarrow> nat option" where
  "currentIndex ws now = findIndex (est_courante (nowId now)) ws"

text \<open>
  \<open>if (stored && typeof stored === 'object') mins = stored.minutes || 0;
  else if (typeof stored === 'number') mins = stored;\<close>
\<close>

fun minutes_affichees :: "stored option \<Rightarrow> int" where
  "minutes_affichees None = 0"
| "minutes_affichees (Some (Obj m u)) = (if m = 0 then 0 else m)"
| "minutes_affichees (Some (Num n)) = n"

text \<open>
  \<open>k.split('-W')\<close>: the text before the first \<open>-W\<close>, and what follows it if there is one.
  \<open>parseInt\<close> of a text, without a radix: leading blanks are skipped; then an optional
  sign; then hexadecimal digits after \<open>0x\<close> or \<open>0X\<close>, decimal digits otherwise;
  \<open>None\<close> (NaN) when there is no digit.
\<close>

fun couper :: "string \<Rightarrow> string \<Rightarrow> string \<times> string option" where
  "couper sep [] = ([], if sep = [] then Some [] else None)"
| "couper sep (c # cs) =
     (if take (length sep) (c # cs) = sep then ([], Some (drop (length sep) (c # cs)))
      else (c # fst (couper sep cs), snd (couper sep cs)))"

definition est_chiffre :: "char \<Rightarrow> bool" where
  "est_chiffre c = (c \<in> set ''0123456789'')"

definition est_hexa :: "char \<Rightarrow> bool" where
  "est_hexa c = (c \<in> set ''0123456789abcdefABCDEF'')"

definition valeur_chiffre :: "char \<Rightarrow> int" where
  "valeur_chiffre c =
     (if c \<in> set ''abcdef'' then int (of_char c) - 87
      else if c \<in> set ''ABCDEF'' then int (of_char c) - 55
      else int (of_char c) - 48)"

fun ajouter_chiffre :: "int \<Rightarrow> char \<Rightarrow> int \<Rightarrow> int" where
  "ajouter_chiffre base c n = base * n + valeur_chiffre c"

definition lire_chiffres :: "string \<Rightarrow> int option" where
  "lire_chiffres s =
     (if take 2 s = ''0x'' \<or> take 2 s = ''0X'' then
        (if takeWhile est_hexa (drop 2 s) = [] then None
         else Some (fold (ajouter_chiffre 16) (takeWhile est_hexa (drop 2 s)) 0))
      else if takeWhile est_chiffre s = [] then None
      else Some (fold (ajouter_chiffre 10) (takeWhile est_chiffre s) 0))"

fun parseInt_signe :: "string \<Rightarrow> int option" where
  "parseInt_signe [] = None"
| "parseInt_signe (c # cs) =
     (if c = CHR ''-'' then map_option uminus (lire_chiffres cs)
      else if c = CHR ''+'' then lire_chiffres cs
      else lire_chiffres (c # cs))"

definition est_blanc :: "char \<Rightarrow> bool" where
  "est_blanc c = (c \<in> set [CHR '' '', CHR 0x09, CHR 0x0A, CHR 0x0D])"

definition parseInt :: "string \<Rightarrow> int option" where
  "parseInt s = parseInt_signe (dropWhile est_blanc s)"

text \<open>
  The test under \<open>Object.keys(ch.planification).some\<close>: the key reads as a week of the
  current year at or after the current week number, or of a later year. A comparison
  with NaN is false.
\<close>

definition cle_courante_ou_apres :: "int \<Rightarrow> int \<Rightarrow> string \<Rightarrow> bool" where
  "cle_courante_ou_apres currentWeekNumber currentYear k =
     (case parseInt (fst (couper ''-W'' k)) of
        None \<Rightarrow> False
      | Some y \<Rightarrow>
          y > currentYear \<or>
          (y = currentYear \<and>
             (case snd (couper ''-W'' k) of
                None \<Rightarrow> False
              | Some r \<Rightarrow>
                  (case parseInt (fst (couper ''-W'' r)) of
                     None \<Rightarrow> False
                   | Some w \<Rightarrow> w \<ge> currentWeekNumber))))"

text \<open>
  \<open>new Date(`${y}-${m}-${d}`)\<close> for the deadline \<open>jj/mm/aaaa\<close> (two, two and four
  digits): the UTC midnight of that date. A text that names no date (a month that is
  not 1 to 12, a day the month does not have, a year that is not four digits) gives
  an Invalid Date, \<open>None\<close> here.
\<close>

fun dateEcheance :: "int \<times> int \<times> int \<Rightarrow> date option" where
  "dateEcheance (d, m, y) =
     (if 1000 \<le> y \<and> y \<le> 9999 \<and> getUTCMonth (Date_UTC y (m - 1) d 0 0) = m - 1
         \<and> getUTCDate (Date_UTC y (m - 1) d 0 0) = d
      then Some (Date_UTC y (m - 1) d 0 0) else None)"

text \<open>
  Whether the job \<open>ch\<close> adds its \<open>prepTime\<close> to \<open>chargeEcheance\<close> of week \<open>w\<close>. Of an
  Invalid Date the week and the year are NaN, and every comparison with them is false.
\<close>

definition compte_date :: "int \<Rightarrow> int \<Rightarrow> week \<Rightarrow> chantier \<Rightarrow> date \<Rightarrow> bool" where
  "compte_date currentWeekNumber currentYear w ch dateEch =
     (let echWeek = getWeek dateEch;
          echYear = getFullYear dateEch;
          isCurrent = (getWeek (start w) = currentWeekNumber \<and> getFullYear (start w) = currentYear);
          isPastEcheance = (echYear < currentYear \<or> (echYear = currentYear \<and> echWeek < currentWeekNumber));
          plannedThisOrLater =
            (case planification ch of
               None \<Rightarrow> False
             | Some p \<Rightarrow> list_ex (cle_courante_ou_apres currentWeekNumber currentYear) (map fst p))
      in (echWeek = getWeek (start w) \<and> echYear = getFullYear (start w)) \<or>
         (isCurrent \<and> isPastEcheance \<and> plannedThisOrLater))"

definition compte_echeance :: "string \<Rightarrow> int \<Rightarrow> int \<Rightarrow> week \<Rightarrow> chantier \<Rightarrow> bool" where
  "compte_echeance name currentWeekNumber currentYear w ch =
     (preparateur ch = Some name \<and>
      (status ch = ''Nouveau'' \<or> status ch = ''Pr'' @ [CHR 0xC3, CHR 0xA9] @ ''pa. en cours'') \<and>
      (case dateEcheance (endDate ch) of
         None \<Rightarrow> False
       | Some dateEch \<Rightarrow> compte_date currentWeekNumber currentYear w ch dateEch))"

definition chargeEcheance :: "chantier list \<Rightarrow> string \<Rightarrow> int \<Rightarrow> int \<Rightarrow> week \<Rightarrow> int" where
  "chargeEcheance chs name currentWeekNumber currentYear w =
     sum_list (map prepTime (filter (compte_echeance name currentWeekNumber currentYear w) chs))"

text \<open>First pass, one week: the state is the table and \<open>margePrec\<close>.\<close>

fun marge_semaine :: "etat \<Rightarrow> string \<Rightarrow> int \<Rightarrow> int \<Rightarrow> week \<Rightarrow> marges \<times> rat \<Rightarrow> marges \<times> rat" where
  "marge_semaine s name currentWeekNumber currentYear w (table, margePrec) =
     (let stored = (case map_of (data s) name of None \<Rightarrow> None | Some m \<Rightarrow> map_of m (weekKey w));
          dispoH = of_int (minutes_affichees stored) / 60;
          Ch = of_int (chargeEcheance (chantiers s) name currentWeekNumber currentYear w) / 60;
          CAh = dispoH + margePrec;
          Mh = CAh - Ch
      in (AList.update (weekKey w)
            \<lparr>dispo = dispoH, C = Ch, CA = CAh, M = Mh, Tdisp = None, badge = None\<rparr> table,
          Mh))"

definition marges_preparateur :: "week list \<Rightarrow> nat \<Rightarrow> etat \<Rightarrow> string \<Rightarrow> marges" where
  "marges_preparateur ws currentIdx s name =
     fst (fold (marge_semaine s name (getWeek (start (ws ! currentIdx)))
                               (getFullYear (start (ws ! currentIdx))))
               (drop currentIdx ws) ([], 0))"

text \<open>
  Second pass. Reading a key the table lacks would be a TypeError; it is \<open>None\<close> here
  (the first pass has written every key, see \<open>tdisp_defini\<close>).
\<close>

fun minimum_fenetre :: "marges \<Rightarrow> string list \<Rightarrow> nat list \<Rightarrow> nombre \<Rightarrow> nombre option" where
  "minimum_fenetre table keys [] minM = Some minM"
| "minimum_fenetre table keys (j # js) minM =
     (case map_of table (keys ! j) of
        None \<Rightarrow> None
      | Some c \<Rightarrow> minimum_fenetre table keys js (if inferieur (M c) minM then Fini (M c) else minM))"

fun tdisp_semaine :: "string list \<Rightarrow> nat \<times> string \<Rightarrow> marges option \<Rightarrow> marges option" where
  "tdisp_semaine keys (idx, cle) None = None"
| "tdisp_semaine keys (idx, cle) (Some table) =
     (case minimum_fenetre table keys [idx ..< min (idx + 16) (length keys)] Infini of
        None \<Rightarrow> None
      | Some minM \<Rightarrow>
          (case map_of table cle of
             None \<Rightarrow> None
           | Some c \<Rightarrow> Some (AList.update cle (c\<lparr>Tdisp := Some minM\<rparr>) table)))"

definition tensions :: "string list \<Rightarrow> marges \<Rightarrow> marges option" where
  "tensions keys table = fold (tdisp_semaine keys) (List.enumerate 0 keys) (Some table)"

text \<open>
  Third pass. \<open>Math.round(x * 2) / 2\<close> with \<open>Math.round x = \<lfloor>x + 1/2\<rfloor>\<close>. The state is the
  table and \<open>lastTdisp\<close> (\<open>None\<close> for \<open>null\<close>). A \<open>Tdisp\<close> that is absent or \<open>Infinity\<close>
  is outside the model (\<open>None\<close>): the second pass leaves none.
\<close>

definition arrondi_demi :: "rat \<Rightarrow> rat" where
  "arrondi_demi x = of_int \<lfloor>x * 2 + 1 / 2\<rfloor> / 2"

definition badge_de :: "rat \<Rightarrow> rat \<Rightarrow> rat option \<Rightarrow> rat option \<times> rat option" where
  "badge_de dispoH raw lastTdisp =
     (if dispoH > 0 then
        (case lastTdisp of
           None \<Rightarrow> (Some (arrondi_demi raw), Some raw)
         | Some l \<Rightarrow>
             if raw \<noteq> l then (Some (arrondi_demi (if l > 0 then raw - l else raw)), Some raw)
             else (None, Some raw))
      else (None, lastTdisp))"

fun badge_semaine :: "string \<Rightarrow> (marges \<times> rat option) option \<Rightarrow> (marges \<times> rat option) option" where
  "badge_semaine cle None = None"
| "badge_semaine cle (Some (table, lastTdisp)) =
     (case map_of table cle of
        None \<Rightarrow> None
      | Some c \<Rightarrow>
          (case Tdisp c of
             Some (Fini raw) \<Rightarrow>
               Some (AList.update cle (c\<lparr>badge := fst (badge_de (dispo c) raw lastTdisp)\<rparr>) table,
                     snd (badge_de (dispo c) raw lastTdisp))
           | _ \<Rightarrow> None))"

definition badges :: "string list \<Rightarrow> marges \<Rightarrow> (marges \<times> rat option) option" where
  "badges keys table = fold badge_semaine keys (Some (table, None))"

text \<open>The three passes for one preparer; \<open>None\<close> also when \<open>nowId\<close> names no week.\<close>

definition margesGlobales :: "week list \<Rightarrow> date \<Rightarrow> etat \<Rightarrow> string \<Rightarrow> marges option" where
  "margesGlobales ws now s name =
     (case currentIndex ws now of
        None \<Rightarrow> None
      | Some currentIdx \<Rightarrow>
          (case tensions (map weekKey (drop currentIdx ws)) (marges_preparateur ws currentIdx s name) of
             None \<Rightarrow> None
           | Some table \<Rightarrow> map_option fst (badges (map weekKey (drop currentIdx ws)) table)))"

section \<open>Properties of the reallocation\<close>

subsection \<open>The week map\<close>

lemma weekMap_snoc:
  "weekMap (ws @ [w]) = AList.update (weekKey w) (w, length ws) (weekMap ws)"
  by (simp add: weekMap_def enumerate_append_eq)

lemma map_of_weekMap_snoc:
  "map_of (weekMap (ws @ [w])) = (map_of (weekMap ws))(weekKey w \<mapsto> (w, length ws))"
  by (simp add: weekMap_snoc update_conv')

lemma weekMap_Nil [simp]: "weekMap [] = []"
  by (simp add: weekMap_def)

lemma weekMap_None: "map_of (weekMap ws) k = None \<longleftrightarrow> k \<notin> weekKey ` set ws"
  by (induction ws rule: rev_induct) (auto simp: map_of_weekMap_snoc)

lemma weekMap_Some:
  "map_of (weekMap ws) k = Some (w, i) \<Longrightarrow>
     i < length ws \<and> ws ! i = w \<and> weekKey w = k \<and>
     (\<forall>j. i < j \<and> j < length ws \<longrightarrow> weekKey (ws ! j) \<noteq> k)"
proof (induction ws arbitrary: w i rule: rev_induct)
  case Nil
  then show ?case by simp
next
  case (snoc x xs)
  show ?case
  proof (cases "weekKey x = k")
    case True
    with snoc.prems have "w = x" "i = length xs"
      by (simp_all add: map_of_weekMap_snoc)
    with True show ?thesis by auto
  next
    case False
    with snoc.prems have "map_of (weekMap xs) k = Some (w, i)"
      by (simp add: map_of_weekMap_snoc)
    from snoc.IH [OF this] False show ?thesis
      by (auto simp: nth_append less_Suc_eq)
  qed
qed

lemma dansFutur_iff: "dansFutur ws cur k \<longleftrightarrow> k \<in> weekKey ` set (drop cur ws)"
proof
  assume "dansFutur ws cur k"
  then obtain w i where m: "map_of (weekMap ws) k = Some (w, i)" and ge: "cur \<le> i"
    by (auto simp: dansFutur_def split: option.splits)
  from weekMap_Some [OF m] have "i < length ws" "weekKey (ws ! i) = k" by auto
  moreover from this ge have "ws ! i \<in> set (drop cur ws)"
    by (auto simp: in_set_conv_nth intro!: exI [of _ "i - cur"])
  ultimately show "k \<in> weekKey ` set (drop cur ws)" by blast
next
  assume "k \<in> weekKey ` set (drop cur ws)"
  then obtain j where j: "j < length (drop cur ws)" "weekKey (drop cur ws ! j) = k"
    by (auto simp: in_set_conv_nth)
  hence j': "cur + j < length ws" "weekKey (ws ! (cur + j)) = k" by auto
  hence "k \<in> weekKey ` set ws" by (metis imageI nth_mem)
  then obtain w i where m: "map_of (weekMap ws) k = Some (w, i)"
    using weekMap_None [of ws k] by (cases "map_of (weekMap ws) k") auto
  from weekMap_Some [OF m] j' have "\<not> i < cur + j" by blast
  thus "dansFutur ws cur k" using m by (simp add: dansFutur_def)
qed

lemma dansPasse_iff:
  "dansPasse ws cur k \<longleftrightarrow> k \<in> weekKey ` set ws \<and> k \<notin> weekKey ` set (drop cur ws)"
proof (cases "map_of (weekMap ws) k")
  case None
  thus ?thesis using weekMap_None [of ws k] by (simp add: dansPasse_def)
next
  case (Some e)
  hence "k \<in> weekKey ` set ws" using weekMap_None [of ws k] by auto
  moreover have "dansPasse ws cur k \<longleftrightarrow> \<not> dansFutur ws cur k"
    using Some by (auto simp: dansPasse_def dansFutur_def)
  ultimately show ?thesis by (simp add: dansFutur_iff)
qed

lemma passe_non_futur: "dansPasse ws cur k \<Longrightarrow> \<not> dansFutur ws cur k"
  by (simp add: dansPasse_iff dansFutur_iff)

lemma futur_planWeeks: "w \<in> set (drop cur ws) \<Longrightarrow> dansFutur ws cur (weekKey w)"
  by (simp add: dansFutur_iff)

subsection \<open>Deprogramming as a filter\<close>

lemma deprog_key_filter:
  "deprog_key ws cur k p = filter (\<lambda>e. \<not> (fst e = k \<and> dansFutur ws cur (fst e))) p"
  by (auto simp: deprog_key_def AList.delete_eq intro!: filter_cong)

lemma fold_deprog_key:
  "fold (deprog_key ws cur) ks p = filter (\<lambda>e. \<not> (fst e \<in> set ks \<and> dansFutur ws cur (fst e))) p"
proof (induction ks arbitrary: p)
  case Nil
  show ?case by simp
next
  case (Cons k ks)
  have "fold (deprog_key ws cur) (k # ks) p = fold (deprog_key ws cur) ks (deprog_key ws cur k p)"
    by simp
  also have "\<dots> = filter (\<lambda>e. \<not> (fst e \<in> set ks \<and> dansFutur ws cur (fst e)))
                      (filter (\<lambda>e. \<not> (fst e = k \<and> dansFutur ws cur (fst e))) p)"
    by (simp only: Cons.IH deprog_key_filter)
  also have "\<dots> = filter (\<lambda>e. \<not> (fst e \<in> set (k # ks) \<and> dansFutur ws cur (fst e))) p"
    by (auto intro!: filter_cong)
  finally show ?case .
qed

lemma deprog_filter:
  "fold (deprog_key ws cur) (map fst p) p = filter (\<lambda>e. \<not> dansFutur ws cur (fst e)) p"
  unfolding fold_deprog_key by (rule filter_cong) auto

subsection \<open>Writing back\<close>

lemma length_fold_ecrire [simp]: "length (fold ecrire ps chs) = length chs"
  by (induction ps arbitrary: chs) auto

lemma fold_ecrire_other: "i \<notin> fst ` set ps \<Longrightarrow> fold ecrire ps chs ! i = chs ! i"
  by (induction ps arbitrary: chs) auto

lemma fold_ecrire_nth:
  "distinct (map fst ps) \<Longrightarrow> (i, c) \<in> set ps \<Longrightarrow> i < length chs \<Longrightarrow> fold ecrire ps chs ! i = c"
proof (induction ps arbitrary: chs)
  case Nil
  then show ?case by simp
next
  case (Cons p ps)
  obtain j d where p: "p = (j, d)" by (cases p)
  show ?case
  proof (cases "(i, c) = (j, d)")
    case True
    with Cons.prems p have "i \<notin> fst ` set ps" by auto
    hence "fold ecrire ps (chs[j := d]) ! i = chs[j := d] ! i"
      by (rule fold_ecrire_other)
    with True Cons.prems p show ?thesis by simp
  next
    case False
    with Cons.prems p have "(i, c) \<in> set ps" "distinct (map fst ps)" by auto
    with Cons.IH [of "chs[j := d]"] Cons.prems p show ?thesis by simp
  qed
qed

subsection \<open>The selected jobs\<close>

lemma set_chantierList:
  "set (chantierList chs name) =
     {(i, chs ! i) | i. i < length chs \<and> selectionne name (chs ! i)}"
  by (auto simp: chantierList_def selectionne_ref_def in_set_enumerate_eq)

lemma distinct_chantierList: "distinct (map fst (chantierList chs name))"
proof -
  have "distinct (map fst (filter (selectionne_ref name) (List.enumerate 0 chs)))"
    by (rule distinct_map_filter) simp
  thus ?thesis
    by (simp add: chantierList_def distinct_map)
qed

lemma chantierList_nth:
  assumes "p < length (chantierList chs name)"
  shows "fst (chantierList chs name ! p) < length chs"
    and "snd (chantierList chs name ! p) = chs ! fst (chantierList chs name ! p)"
    and "selectionne name (chs ! fst (chantierList chs name ! p))"
proof -
  have "chantierList chs name ! p \<in> set (chantierList chs name)"
    using assms by simp
  hence "chantierList chs name ! p \<in> {(i, chs ! i) | i. i < length chs \<and> selectionne name (chs ! i)}"
    by (simp only: set_chantierList)
  thus "fst (chantierList chs name ! p) < length chs"
    and "snd (chantierList chs name ! p) = chs ! fst (chantierList chs name ! p)"
    and "selectionne name (chs ! fst (chantierList chs name ! p))"
    by auto
qed

subsection \<open>What the planning loop leaves alone\<close>

lemma planifier_seul:
  "\<exists>x. fst (planifier d a b w (ch, r)) = ch\<lparr>planification := x\<rparr>"
proof (cases "fst (planifier d a b w (ch, r)) = ch")
  case True
  hence "fst (planifier d a b w (ch, r)) = ch\<lparr>planification := planification ch\<rparr>" by simp
  thus ?thesis ..
next
  case False
  thus ?thesis by (auto simp: Let_def split: if_splits)
qed

lemma fold_planifier_seul:
  "\<exists>x. fst (fold (planifier d a b) pw (ch, r)) = ch\<lparr>planification := x\<rparr>"
proof (induction pw arbitrary: ch r)
  case Nil
  have "fst (fold (planifier d a b) [] (ch, r)) = ch\<lparr>planification := planification ch\<rparr>" by simp
  thus ?case ..
next
  case (Cons w pw)
  obtain ch1 r1 where s: "planifier d a b w (ch, r) = (ch1, r1)" by (cases "planifier d a b w (ch, r)")
  from planifier_seul [of d a b w ch r] s obtain x where x: "ch1 = ch\<lparr>planification := x\<rparr>" by auto
  from Cons.IH [of ch1 r1] obtain y where "fst (fold (planifier d a b) pw (ch1, r1)) = ch1\<lparr>planification := y\<rparr>" ..
  with s x have "fst (fold (planifier d a b) (w # pw) (ch, r)) = ch\<lparr>planification := y\<rparr>" by simp
  thus ?case ..
qed

lemma planifier_chantier_seul:
  "\<exists>x. planifier_chantier d pw a ch b = ch\<lparr>planification := x\<rparr>"
  unfolding planifier_chantier_def by (rule fold_planifier_seul)

lemma repartir_append:
  "\<exists>X. repartir d pw avant apres = avant @ X \<and>
        list_all2 (\<lambda>c c'. \<exists>x. c' = c\<lparr>planification := x\<rparr>) apres X"
proof (induction apres arbitrary: avant)
  case Nil
  show ?case by simp
next
  case (Cons ch apres)
  let ?c = "planifier_chantier d pw avant ch apres"
  from Cons.IH [of "avant @ [?c]"] obtain X where
    X: "repartir d pw (avant @ [?c]) apres = (avant @ [?c]) @ X"
       "list_all2 (\<lambda>c c'. \<exists>x. c' = c\<lparr>planification := x\<rparr>) apres X" by blast
  have "repartir d pw avant (ch # apres) = avant @ (?c # X)" using X(1) by simp
  moreover have "list_all2 (\<lambda>c c'. \<exists>x. c' = c\<lparr>planification := x\<rparr>) (ch # apres) (?c # X)"
    using X(2) planifier_chantier_seul [of d pw avant ch apres] by simp
  ultimately show ?case by blast
qed

lemma length_repartir [simp]: "length (repartir d pw avant apres) = length avant + length apres"
  using repartir_append [of d pw avant apres] by (auto dest: list_all2_lengthD)

lemma repartir_nth_seul:
  assumes "p < length js"
  shows "\<exists>x. repartir d pw [] js ! p = (js ! p)\<lparr>planification := x\<rparr>"
  using repartir_append [of d pw "[]" js] assms by (auto simp: list_all2_conv_all_nth)

lemma reinitialiser_seul:
  "\<exists>x y. reinitialiser ws cur ch = ch\<lparr>planification := x, ChargeRestante := y\<rparr>"
  by (auto simp: reinitialiser_def Let_def)

text \<open>The jobs written back for one preparer, by position in the sorted list.\<close>

definition traites :: "week list \<Rightarrow> nat \<Rightarrow> (string \<times> (string \<times> stored) list) list
                        \<Rightarrow> string \<Rightarrow> chantier list \<Rightarrow> chantier list" where
  "traites ws cur d name chs =
     repartir (dispoParSemaine ws d name) (drop cur ws) []
       (map (reinitialiser ws cur) (map snd (chantierList chs name)))"

lemma traiter_preparateur_eq:
  "traiter_preparateur ws cur d name chs =
     fold ecrire (zip (map fst (chantierList chs name)) (traites ws cur d name chs)) chs"
  by (cases "chantierList chs name = []") (simp_all add: traiter_preparateur_def traites_def Let_def)

lemma length_traites [simp]: "length (traites ws cur d name chs) = length (chantierList chs name)"
  by (simp add: traites_def)

lemma length_traiter_preparateur [simp]:
  "length (traiter_preparateur ws cur d name chs) = length chs"
  by (simp add: traiter_preparateur_eq)

lemma traiter_autre:
  assumes "\<not> selectionne name (chs ! i)"
  shows "traiter_preparateur ws cur d name chs ! i = chs ! i"
proof -
  have "i \<notin> fst ` set (zip (map fst (chantierList chs name)) (traites ws cur d name chs))"
  proof
    assume "i \<in> fst ` set (zip (map fst (chantierList chs name)) (traites ws cur d name chs))"
    then obtain c where "(i, c) \<in> set (zip (map fst (chantierList chs name)) (traites ws cur d name chs))"
      by auto
    hence "i \<in> set (map fst (chantierList chs name))" by (rule set_zip_leftD)
    then obtain c' where "(i, c') \<in> set (chantierList chs name)" by auto
    hence "selectionne name (chs ! i)" by (auto simp: set_chantierList)
    with assms show False by simp
  qed
  thus ?thesis unfolding traiter_preparateur_eq by (rule fold_ecrire_other)
qed

lemma traiter_selectionne:
  assumes "p < length (chantierList chs name)"
  shows "traiter_preparateur ws cur d name chs ! fst (chantierList chs name ! p)
           = traites ws cur d name chs ! p"
proof -
  let ?cl = "chantierList chs name" and ?J = "traites ws cur d name chs"
  have "distinct (map fst (zip (map fst ?cl) ?J))"
    by (simp add: distinct_chantierList)
  moreover have "(fst (?cl ! p), ?J ! p) \<in> set (zip (map fst ?cl) ?J)"
    using assms by (auto simp: set_zip intro!: exI [of _ p])
  moreover have "fst (?cl ! p) < length chs" using assms by (rule chantierList_nth)
  ultimately show ?thesis unfolding traiter_preparateur_eq by (rule fold_ecrire_nth)
qed

lemma traites_seul:
  assumes "p < length (chantierList chs name)"
  shows "\<exists>x y. traites ws cur d name chs ! p
            = (chs ! fst (chantierList chs name ! p))\<lparr>planification := x, ChargeRestante := y\<rparr>"
proof -
  let ?cl = "chantierList chs name"
  let ?js = "map (reinitialiser ws cur) (map snd ?cl)"
  have lp: "p < length ?js" using assms by simp
  from repartir_nth_seul [OF lp] obtain x where
    x: "traites ws cur d name chs ! p = (?js ! p)\<lparr>planification := x\<rparr>"
    unfolding traites_def by blast
  have "?js ! p = reinitialiser ws cur (chs ! fst (?cl ! p))"
    using assms chantierList_nth(2) [OF assms] by simp
  with reinitialiser_seul [of ws cur "chs ! fst (?cl ! p)"] obtain x' y where
    "?js ! p = (chs ! fst (?cl ! p))\<lparr>planification := x', ChargeRestante := y\<rparr>" by auto
  with x have "traites ws cur d name chs ! p
      = (chs ! fst (?cl ! p))\<lparr>planification := x, ChargeRestante := y\<rparr>" by simp
  thus ?thesis by blast
qed

text \<open>Every job keeps all its fields but \<open>planification\<close> and \<open>ChargeRestante\<close>.\<close>

lemma traiter_seul:
  assumes "i < length chs"
  shows "\<exists>x y. traiter_preparateur ws cur d name chs ! i = (chs ! i)\<lparr>planification := x, ChargeRestante := y\<rparr>"
proof (cases "selectionne name (chs ! i)")
  case False
  hence "traiter_preparateur ws cur d name chs ! i
      = (chs ! i)\<lparr>planification := planification (chs ! i), ChargeRestante := ChargeRestante (chs ! i)\<rparr>"
    by (simp add: traiter_autre)
  thus ?thesis by blast
next
  case True
  with assms have "(i, chs ! i) \<in> set (chantierList chs name)" by (auto simp: set_chantierList)
  then obtain p where p: "p < length (chantierList chs name)" "chantierList chs name ! p = (i, chs ! i)"
    by (auto simp: in_set_conv_nth)
  from traiter_selectionne [OF p(1), of ws cur d] traites_seul [OF p(1), of ws cur d] p(2)
  show ?thesis by simp
qed

subsection \<open>All preparers in turn\<close>

lemma length_fold_traiter [simp]:
  "length (fold (traiter_preparateur ws cur d) names chs) = length chs"
  by (induction names arbitrary: chs) auto

lemma fold_traiter_autre:
  "\<forall>name \<in> set names. \<not> selectionne name (chs ! i) \<Longrightarrow>
     fold (traiter_preparateur ws cur d) names chs ! i = chs ! i"
proof (induction names arbitrary: chs)
  case Nil
  show ?case by simp
next
  case (Cons n names)
  have "traiter_preparateur ws cur d n chs ! i = chs ! i"
    using Cons.prems by (simp add: traiter_autre)
  with Cons show ?case by simp
qed


subsection \<open>findIndex\<close>

lemma findIndex_from_None: "findIndex_from i P xs = None \<longleftrightarrow> (\<forall>x \<in> set xs. \<not> P x)"
  by (induction xs arbitrary: i) auto

lemma findIndex_from_Some:
  "findIndex_from i P xs = Some k \<Longrightarrow>
     i \<le> k \<and> k - i < length xs \<and> P (xs ! (k - i)) \<and> (\<forall>j < k - i. \<not> P (xs ! j))"
proof (induction xs arbitrary: i)
  case Nil
  thus ?case by simp
next
  case (Cons x xs)
  show ?case
  proof (cases "P x")
    case True
    with Cons.prems show ?thesis by simp
  next
    case False
    with Cons.prems have "findIndex_from (i + 1) P xs = Some k" by simp
    from Cons.IH [OF this] have k: "i + 1 \<le> k" "k - (i + 1) < length xs"
      "P (xs ! (k - (i + 1)))" "\<forall>j < k - (i + 1). \<not> P (xs ! j)" by auto
    have e: "k - i = Suc (k - (i + 1))" using k(1) by simp
    show ?thesis
      unfolding e using k False by (auto simp: less_Suc_eq_0_disj)
  qed
qed

lemma currentWeekIdx_None:
  "currentWeekIdx ws now = None \<longleftrightarrow> (\<forall>w \<in> set ws. \<not> contient (nowFixed now) w)"
  by (simp add: currentWeekIdx_def findIndex_def findIndex_from_None)

lemma currentWeekIdx_Some:
  "currentWeekIdx ws now = Some cur \<Longrightarrow> cur < length ws \<and> contient (nowFixed now) (ws ! cur)"
  unfolding currentWeekIdx_def findIndex_def by (drule findIndex_from_Some) simp

subsection \<open>The whole run\<close>

lemma repartition_Termine:
  "currentWeekIdx ws now = Some cur \<Longrightarrow>
   repartitionAutomatique ws now s =
     (Termine, s\<lparr>chantiers := map nettoyer
        (fold (traiter_preparateur ws cur (data s)) (map fst (data s))
           (map (deprogrammer ws cur) (chantiers s)))\<rparr>)"
  by (simp add: repartitionAutomatique_def)

lemma deprogrammer_actif [simp]: "actif (deprogrammer ws cur ch) = actif ch"
  by (simp add: deprogrammer_def actif_def split: option.splits)

lemma deprogrammer_selectionne [simp]:
  "selectionne name (deprogrammer ws cur ch) = selectionne name ch"
  by (simp add: deprogrammer_def selectionne_def actif_def split: option.splits)

lemma deprogrammer_inactif:
  "\<not> actif ch \<Longrightarrow> planification (deprogrammer ws cur ch)
     = map_option (filter (\<lambda>e. \<not> dansFutur ws cur (fst e))) (planification ch)"
  by (simp add: deprogrammer_def deprog_filter split: option.splits)


lemma nettoyer_planification [simp]: "planification (nettoyer ch) = planification ch"
  by (simp add: nettoyer_def)

lemma nettoyer_ChargeRestante [simp]: "ChargeRestante (nettoyer ch) = ChargeRestante ch"
  by (simp add: nettoyer_def)

lemma chantiers_repartition:
  "currentWeekIdx ws now = Some cur \<Longrightarrow>
   chantiers (snd (repartitionAutomatique ws now s)) =
     map nettoyer (fold (traiter_preparateur ws cur (data s)) (map fst (data s))
                     (map (deprogrammer ws cur) (chantiers s)))"
  by (simp add: repartition_Termine)

text \<open>Examples: three weeks of November 2026, one preparer, one job.\<close>

definition ex_semaines :: "week list" where
  "ex_semaines = map (week_of 2026) [45, 46, 47]"

definition ex_chantier :: chantier where
  "ex_chantier = \<lparr> ident = ''CH-1'', libelle = ''Poste A'', status = ''Nouveau'',
     prepTime = 5000, endDate = (16, 11, 2026), preparateur = Some ''A'',
     planification = Some [(''2026-W45-1'', 60), (''2026-W46-1'', 120), (''2026-W47-1'', 30)],
     ChargeRestante = None, tempsRestant = None \<rparr>"

definition ex_etat :: "string \<Rightarrow> etat" where
  "ex_etat st = \<lparr> data = [(''A'', [(''2026-W46-1'', Obj 2400 ''2026-11-01''), (''2026-W47-1'', Num 2400)])],
     chantiers = [ex_chantier\<lparr>status := st\<rparr>] \<rparr>"

definition Annule :: string where
  "Annule = ''Annul'' @ [CHR 0xC3, CHR 0xA9]"

text \<open>
  Deprogramming, by keys: in a run that finds the current week, a job that is not
  active keeps exactly the entries of its allocation map whose key is not the key of a
  week of index at or after the current one (\<open>dansFutur\<close>, see \<open>dansFutur_iff\<close>).
\<close>

lemma deprogrammation_inactifs:
  assumes "currentWeekIdx ws now = Some cur"
    and "i < length (chantiers s)"
    and "\<not> actif (chantiers s ! i)"
  shows "planification (chantiers (snd (repartitionAutomatique ws now s)) ! i)
       = map_option (filter (\<lambda>e. \<not> dansFutur ws cur (fst e))) (planification (chantiers s ! i))"
proof -
  let ?c0 = "map (deprogrammer ws cur) (chantiers s)"
  have "\<forall>name \<in> set (map fst (data s)). \<not> selectionne name (?c0 ! i)"
    using assms(2,3) by (simp add: selectionne_def)
  hence "fold (traiter_preparateur ws cur (data s)) (map fst (data s)) ?c0 ! i = ?c0 ! i"
    by (rule fold_traiter_autre)
  thus ?thesis
    using assms by (simp add: chantiers_repartition deprogrammer_inactif)
qed

lemma deprogrammation_inactifs_exemple:
  "currentWeekIdx ex_semaines (Date_UTC 2026 10 10 9 30) = Some 1
   \<and> \<not> actif (chantiers (ex_etat Annule) ! 0)
   \<and> planification (chantiers (snd (repartitionAutomatique ex_semaines (Date_UTC 2026 10 10 9 30) (ex_etat Annule))) ! 0)
       = Some [(''2026-W45-1'', 60)]"
proof -
  have h1: "currentWeekIdx ex_semaines (Date_UTC 2026 10 10 9 30) = Some 1" by code_simp
  have h2: "0 < length (chantiers (ex_etat Annule))" by code_simp
  have h3: "\<not> actif (chantiers (ex_etat Annule) ! 0)" by code_simp
  have r: "map_option (filter (\<lambda>e. \<not> dansFutur ex_semaines 1 (fst e))) (planification (chantiers (ex_etat Annule) ! 0))
         = Some [(''2026-W45-1'', 60)]" by code_simp
  show ?thesis
    using deprogrammation_inactifs [OF h1 h2 h3] h1 h3 r by simp
qed

section \<open>Properties of the calendar\<close>

subsection \<open>Runtime identities\<close>

lemma msPerDay_pos: "0 < msPerDay"
  by (simp add: msPerDay_def)

lemma Day_mult [simp]: "Day (n * msPerDay) = n"
  by (simp add: Day_def msPerDay_def)

lemma TimeWithinDay_mult [simp]: "TimeWithinDay (n * msPerDay) = 0"
  by (simp add: TimeWithinDay_def)

lemma Day_TimeWithinDay: "Day t * msPerDay + TimeWithinDay t = t"
  by (simp add: Day_def TimeWithinDay_def)

lemma MonthFromTime_range: "0 \<le> MonthFromTime t \<and> MonthFromTime t \<le> 11"
  by (simp add: MonthFromTime_def Let_def)

lemma MakeDay_of_time:
  "MakeDay (YearFromTime t) (MonthFromTime t) (DateFromTime t + k) = Day t + k"
proof -
  have m: "MonthFromTime t div 12 = 0" "MonthFromTime t mod 12 = MonthFromTime t"
    using MonthFromTime_range [of t] by simp_all
  show ?thesis
    by (simp add: MakeDay_def m DateFromTime_def DayWithinYear_def InLeapYear_def)
qed

lemma setUTCDate_shift:
  "setUTCDate (Date t) (getUTCDate (Date t) + k) = Date (t + k * msPerDay)"
proof -
  have "(Day t + k) * msPerDay + TimeWithinDay t = t + k * msPerDay"
    using Day_TimeWithinDay [of t] by (simp add: algebra_simps)
  thus ?thesis by (simp add: MakeDay_of_time MakeDate_def)
qed

lemma Date_UTC_janvier:
  "99 < y \<Longrightarrow> Date_UTC y 0 dt 0 0 = Date ((DayFromYear y + dt - 1) * msPerDay)"
  by (simp add: Date_UTC_def MakeDate_def MakeDay_def monthStart_def)

lemma WeekDay_mult [simp]: "WeekDay (n * msPerDay) = (n + 4) mod 7"
  by (simp add: WeekDay_def)

text \<open>The day number of the Monday that starts ISO week 1 of year \<open>y\<close>, as the source finds it.\<close>

definition premierLundi :: "int \<Rightarrow> int" where
  "premierLundi y =
     (let d0 = DayFromYear y;
          day = (if (d0 + 4) mod 7 = 0 then 7 else (d0 + 4) mod 7)
      in d0 + (1 - day + (if day \<le> 4 then 0 else 7)))"

lemma getDateOfISOWeek_eq:
  assumes "99 < y"
  shows "getDateOfISOWeek w y = Date ((premierLundi y + 7 * (w - 1)) * msPerDay)"
proof -
  let ?d0 = "DayFromYear y + (1 + (w - 1) * 7) - 1"
  have wd: "(?d0 + 4) mod 7 = (DayFromYear y + 4) mod 7"
  proof -
    have "?d0 + 4 = (DayFromYear y + 4) + 7 * (w - 1)" by simp
    thus ?thesis by (simp only: mod_mult_self2)
  qed
  have "getDateOfISOWeek w y =
        (let day = (if (?d0 + 4) mod 7 = 0 then 7 else (?d0 + 4) mod 7)
         in Date (?d0 * msPerDay + (1 - day + (if day \<le> 4 then 0 else 7)) * msPerDay))"
    unfolding getDateOfISOWeek_def Date_UTC_janvier [OF assms] Let_def
    by (simp only: setUTCDate_shift getUTCDay.simps WeekDay_mult)
  thus ?thesis
    unfolding wd by (simp add: premierLundi_def Let_def algebra_simps)
qed

lemma week_of_eq:
  assumes "99 < y"
  shows "week_of y w = \<lparr> wid = ''S'' @ String_of w @ ''/'' @ String_of y,
                          start = Date ((premierLundi y + 7 * (w - 1)) * msPerDay),
                          fin = Date ((premierLundi y + 7 * (w - 1) + 6) * msPerDay) \<rparr>"
  unfolding week_of_def getDateOfISOWeek_eq [OF assms] Let_def setUTCDate_shift
  by (simp add: algebra_simps)

subsection \<open>The year of a day\<close>

lemma DayFromYear_mono_aux: "0 \<le> k \<Longrightarrow> DayFromYear y + 365 * k \<le> DayFromYear (y + k)"
proof (induction k rule: int_ge_induct)
  case base
  show ?case by simp
next
  case (step i)
  have "DayFromYear (y + (i + 1)) = DayFromYear (y + i) + DaysInYear (y + i)"
    using DayFromYear_Suc [of "y + i"] by (simp add: add.assoc)
  with step DaysInYear_pos [of "y + i"] show ?case by simp
qed

lemma DayFromYear_upper_aux: "0 \<le> k \<Longrightarrow> DayFromYear (y + k) \<le> DayFromYear y + 366 * k"
proof (induction k rule: int_ge_induct)
  case base
  show ?case by simp
next
  case (step i)
  have "DayFromYear (y + (i + 1)) = DayFromYear (y + i) + DaysInYear (y + i)"
    using DayFromYear_Suc [of "y + i"] by (simp add: add.assoc)
  moreover have "DaysInYear (y + i) \<le> 366" by (simp add: DaysInYear_def)
  ultimately show ?case using step by simp
qed

lemma DayFromYear_mono: "y \<le> z \<Longrightarrow> DayFromYear y \<le> DayFromYear z"
  using DayFromYear_mono_aux [of "z - y" y] by simp

lemma DayFromYear_strict: "y < z \<Longrightarrow> DayFromYear y < DayFromYear z"
  using DayFromYear_mono_aux [of "z - y" y] by simp

lemma DayFromYear_1970 [simp]: "DayFromYear 1970 = 0"
  by (simp add: DayFromYear_def)

lemma year_search_eq:
  assumes "DayFromYear Y \<le> d" "d < DayFromYear (Y + 1)" "y0 \<le> Y"
  shows "year_search d y0 = Y"
  using assms
proof (induction "nat (Y - y0)" arbitrary: y0)
  case 0
  hence "y0 = Y" by simp
  with "0.prems" show ?case by (simp add: year_search.simps)
next
  case (Suc n)
  hence lt: "y0 < Y" by simp
  hence "DayFromYear (y0 + 1) \<le> DayFromYear Y" by (intro DayFromYear_mono) simp
  with Suc.prems have le: "DayFromYear (y0 + 1) \<le> d" by simp
  have "year_search d (y0 + 1) = Y"
    using Suc.hyps(2) lt by (intro Suc.hyps(1) Suc.prems(1,2)) simp_all
  with le show ?case by (subst year_search.simps) simp
qed

lemma YearFromTime_eq:
  assumes "DayFromYear Y \<le> Day t" "Day t < DayFromYear (Y + 1)"
  shows "YearFromTime t = Y"
proof -
  let ?d = "Day t"
  let ?y0 = "if 0 \<le> ?d then 1970 + ?d div 366 else 1970 + ?d div 365"
  have "DayFromYear ?y0 \<le> ?d"
  proof (cases "0 \<le> ?d")
    case True
    hence "0 \<le> ?d div 366" by simp
    from DayFromYear_upper_aux [OF this, of 1970]
    have "DayFromYear (1970 + ?d div 366) \<le> 366 * (?d div 366)" by simp
    also have "\<dots> \<le> ?d" by (simp add: mult.commute [of 366])
    finally show ?thesis using True by simp
  next
    case False
    hence neg: "?d div 365 \<le> 0" using zdiv_mono1 [of ?d 0 365] by simp
    from DayFromYear_mono_aux [of "- (?d div 365)" "1970 + ?d div 365"] neg
    have "DayFromYear (1970 + ?d div 365) \<le> 365 * (?d div 365)" by simp
    also have "\<dots> \<le> ?d" by (simp add: mult.commute [of 365])
    finally show ?thesis using False by simp
  qed
  with assms(2) have "DayFromYear ?y0 < DayFromYear (Y + 1)" by simp
  hence "\<not> Y + 1 \<le> ?y0" using DayFromYear_mono [of "Y + 1" ?y0] by auto
  hence "?y0 \<le> Y" by simp
  from year_search_eq [OF assms this] show ?thesis by (simp add: YearFromTime_def)
qed

lemma Date_UTC_of_time:
  "99 < YearFromTime t \<Longrightarrow>
     Date_UTC (YearFromTime t) (MonthFromTime t) (DateFromTime t) 0 0 = Date (Day t * msPerDay)"
  using MakeDay_of_time [of t 0] by (simp add: Date_UTC_def MakeDate_def)

text \<open>The Thursday of the ISO week that holds day \<open>n\<close>.\<close>

definition jeudi :: "int \<Rightarrow> int" where
  "jeudi n = n + 4 - (if (n + 4) mod 7 = 0 then 7 else (n + 4) mod 7)"

lemma getWeek_eq:
  assumes "99 < YearFromTime t" "99 < Y"
    and "DayFromYear Y \<le> jeudi (Day t)" "jeudi (Day t) < DayFromYear (Y + 1)"
  shows "getWeek (Date t) = - ((- (jeudi (Day t) - DayFromYear Y + 1)) div 7)"
proof -
  let ?d = "Date (Day t * msPerDay)"
  let ?day = "if getUTCDay ?d = 0 then 7 else getUTCDay ?d"
  have d1: "Date_UTC (getFullYear (Date t)) (getMonth (Date t)) (getDate (Date t)) 0 0 = ?d"
    using Date_UTC_of_time [OF assms(1)] by (simp add: getFullYear_def getMonth_def getDate_def)
  have day: "?day = (if (Day t + 4) mod 7 = 0 then 7 else (Day t + 4) mod 7)"
    by simp
  have "setUTCDate ?d (getUTCDate ?d + (4 - ?day)) = Date (Day t * msPerDay + (4 - ?day) * msPerDay)"
    by (rule setUTCDate_shift)
  also have "Day t * msPerDay + (4 - ?day) * msPerDay = jeudi (Day t) * msPerDay"
    unfolding day by (simp add: jeudi_def algebra_simps)
  finally have d2: "setUTCDate ?d (getUTCDate ?d + 4 - ?day) = Date (jeudi (Day t) * msPerDay)"
    by (simp only: add_diff_eq)
  have y: "getUTCFullYear (Date (jeudi (Day t) * msPerDay)) = Y"
    unfolding getUTCFullYear.simps by (rule YearFromTime_eq) (simp_all add: assms)
  have d: "(valueOf (Date (jeudi (Day t) * msPerDay)) - valueOf (Date_UTC Y 0 1 0 0)) div 86400000
             = jeudi (Day t) - DayFromYear Y"
  proof -
    have "jeudi (Day t) * msPerDay - (DayFromYear Y + 1 - 1) * msPerDay
            = (jeudi (Day t) - DayFromYear Y) * 86400000"
      by (simp add: msPerDay_def algebra_simps)
    thus ?thesis by (simp add: Date_UTC_janvier [OF assms(2)])
  qed
  show ?thesis
    unfolding getWeek_def Let_def d1 d2 y d by (rule refl)
qed

lemma DayFromYear_vals:
  "DayFromYear 2023 = 19358" "DayFromYear 2024 = 19723" "DayFromYear 2025 = 20089"
  "DayFromYear 2026 = 20454" "DayFromYear 2027 = 20819" "DayFromYear 2028 = 21184"
  "DayFromYear 2029 = 21550"
  by (simp_all add: DayFromYear_def)

lemma premierLundi_vals:
  "premierLundi 2024 = 19723" "premierLundi 2025 = 20087" "premierLundi 2026 = 20451"
  "premierLundi 2027 = 20822" "premierLundi 2028 = 21186"
  by (simp_all add: premierLundi_def DayFromYear_vals)

lemma dernier_jour:
  "99 < y \<Longrightarrow> Date_UTC y 11 31 0 0 = Date ((DayFromYear (y + 1) - 1) * msPerDay)"
  by (simp add: Date_UTC_def MakeDate_def MakeDay_def monthStart_def DayFromYear_Suc DaysInYear_def)

lemma YearFromTime_vals:
  "YearFromTime (20088 * msPerDay) = 2024" "YearFromTime (20453 * msPerDay) = 2025"
  "YearFromTime (20818 * msPerDay) = 2026" "YearFromTime (21183 * msPerDay) = 2027"
  "YearFromTime (21549 * msPerDay) = 2028"
  by (rule YearFromTime_eq; simp add: DayFromYear_vals)+

lemma getISOWeeksInYear_vals:
  "getISOWeeksInYear 2024 = 52" "getISOWeeksInYear 2025 = 52" "getISOWeeksInYear 2026 = 53"
  "getISOWeeksInYear 2027 = 52" "getISOWeeksInYear 2028 = 52"
proof -
  have "getWeek (Date (20088 * msPerDay)) = 1"
    by (subst getWeek_eq [where Y = 2025]) (simp_all add: YearFromTime_vals DayFromYear_vals jeudi_def)
  thus "getISOWeeksInYear 2024 = 52"
    by (simp add: getISOWeeksInYear_def dernier_jour DayFromYear_vals)
  have "getWeek (Date (20453 * msPerDay)) = 1"
    by (subst getWeek_eq [where Y = 2026]) (simp_all add: YearFromTime_vals DayFromYear_vals jeudi_def)
  thus "getISOWeeksInYear 2025 = 52"
    by (simp add: getISOWeeksInYear_def dernier_jour DayFromYear_vals)
  have "getWeek (Date (20818 * msPerDay)) = 53"
    by (subst getWeek_eq [where Y = 2026]) (simp_all add: YearFromTime_vals DayFromYear_vals jeudi_def)
  thus "getISOWeeksInYear 2026 = 53"
    by (simp add: getISOWeeksInYear_def dernier_jour DayFromYear_vals)
  have "getWeek (Date (21183 * msPerDay)) = 52"
    by (subst getWeek_eq [where Y = 2027]) (simp_all add: YearFromTime_vals DayFromYear_vals jeudi_def)
  thus "getISOWeeksInYear 2027 = 52"
    by (simp add: getISOWeeksInYear_def dernier_jour DayFromYear_vals)
  have "getWeek (Date (21549 * msPerDay)) = 52"
    by (subst getWeek_eq [where Y = 2028]) (simp_all add: YearFromTime_vals DayFromYear_vals jeudi_def)
  thus "getISOWeeksInYear 2028 = 52"
    by (simp add: getISOWeeksInYear_def dernier_jour DayFromYear_vals)
qed

lemma weeks_of_vals:
  "weeks_of 2024 = map (week_of 2024) [1..52]" "weeks_of 2025 = map (week_of 2025) [1..52]"
  "weeks_of 2026 = map (week_of 2026) [1..53]" "weeks_of 2027 = map (week_of 2027) [1..52]"
  "weeks_of 2028 = map (week_of 2028) [1..52]"
  by (simp_all only: weeks_of_def getISOWeeksInYear_vals)

lemma start_week_of: "99 < y \<Longrightarrow> valueOf (start (week_of y k)) = (premierLundi y + 7 * (k - 1)) * msPerDay"
  by (simp add: week_of_eq)

lemma fin_week_of: "99 < y \<Longrightarrow> valueOf (fin (week_of y k)) = (premierLundi y + 7 * (k - 1) + 6) * msPerDay"
  by (simp add: week_of_eq)

lemma weeks_concat:
  "weeks = map (week_of 2024) [1..52] @ map (week_of 2025) [1..52] @ map (week_of 2026) [1..53]
         @ map (week_of 2027) [1..52] @ map (week_of 2028) [1..52]"
  by (simp add: weeks_def weeks_of_vals)

lemma length_weeks: "length weeks = 261"
  by (simp add: weeks_concat)

text \<open>The week of index \<open>i\<close> is week \<open>numero i\<close> of year \<open>annee i\<close>.\<close>

definition annee :: "nat \<Rightarrow> int" where
  "annee i = (if i < 52 then 2024 else if i < 104 then 2025 else if i < 157 then 2026
              else if i < 209 then 2027 else 2028)"

definition numero :: "nat \<Rightarrow> int" where
  "numero i = (if i < 52 then 1 + int i else if i < 104 then 1 + int (i - 52)
               else if i < 157 then 1 + int (i - 104) else if i < 209 then 1 + int (i - 157)
               else 1 + int (i - 209))"

lemma weeks_nth: "i < 261 \<Longrightarrow> weeks ! i = week_of (annee i) (numero i)"
  by (auto simp: weeks_concat nth_append annee_def numero_def)

lemma premierLundi_annee: "i < 261 \<Longrightarrow> premierLundi (annee i) + 7 * (numero i - 1) = 19723 + 7 * int i"
  by (auto simp: annee_def numero_def premierLundi_vals)

lemma annee_grand: "99 < annee i"
  by (simp add: annee_def)

lemma start_weeks_nth: "i < 261 \<Longrightarrow> start (weeks ! i) = Date ((19723 + 7 * int i) * msPerDay)"
proof -
  assume i: "i < 261"
  have "start (weeks ! i) = Date ((premierLundi (annee i) + 7 * (numero i - 1)) * msPerDay)"
    unfolding weeks_nth [OF i] week_of_eq [OF annee_grand] by simp
  thus ?thesis by (simp only: premierLundi_annee [OF i])
qed

lemma fin_weeks_nth: "i < 261 \<Longrightarrow> fin (weeks ! i) = Date ((19723 + 7 * int i + 6) * msPerDay)"
proof -
  assume i: "i < 261"
  have "fin (weeks ! i) = Date ((premierLundi (annee i) + 7 * (numero i - 1) + 6) * msPerDay)"
    unfolding weeks_nth [OF i] week_of_eq [OF annee_grand] by simp
  thus ?thesis by (simp only: premierLundi_annee [OF i])
qed

lemma wid_weeks_nth:
  "i < 261 \<Longrightarrow> wid (weeks ! i) = ''S'' @ String_of (numero i) @ ''/'' @ String_of (annee i)"
  by (simp add: weeks_nth week_of_eq [OF annee_grand])

lemma premierLundi_forme:
  "\<exists>q c. DayFromYear y + 4 = 7 * q + c \<and> 1 \<le> c \<and> c \<le> 7
         \<and> premierLundi y = DayFromYear y + (1 - c + (if c \<le> 4 then 0 else 7))"
proof -
  define r where "r = (DayFromYear y + 4) mod 7"
  have r: "0 \<le> r" "r < 7" by (simp_all add: r_def)
  have e: "DayFromYear y + 4 = 7 * ((DayFromYear y + 4) div 7) + r"
    by (simp add: r_def)
  show ?thesis
  proof (cases "r = 0")
    case True
    have "DayFromYear y + 4 = 7 * ((DayFromYear y + 4) div 7 - 1) + 7" using e True by simp
    moreover have "premierLundi y = DayFromYear y + (1 - 7 + (if (7::int) \<le> 4 then 0 else 7))"
      using True by (simp add: premierLundi_def r_def)
    ultimately show ?thesis by (intro exI [of _ "(DayFromYear y + 4) div 7 - 1"] exI [of _ 7]) simp
  next
    case False
    have "premierLundi y = DayFromYear y + (1 - r + (if r \<le> 4 then 0 else 7))"
      using False by (simp add: premierLundi_def r_def Let_def)
    with e r False show ?thesis
      by (intro exI [of _ "(DayFromYear y + 4) div 7"] exI [of _ r]) simp
  qed
qed

lemma premierLundi_bornes:
  "DayFromYear y - 3 \<le> premierLundi y" "premierLundi y \<le> DayFromYear y + 3"
  using premierLundi_forme [of y] by (auto split: if_splits)

lemma premierLundi_lundi: "(premierLundi y + 4) mod 7 = 1"
proof -
  from premierLundi_forme [of y] obtain q c where
    h: "DayFromYear y + 4 = 7 * q + c" "1 \<le> c" "c \<le> 7"
       "premierLundi y = DayFromYear y + (1 - c + (if c \<le> 4 then 0 else 7))" by blast
  have "premierLundi y + 4 = 1 + 7 * (q + (if c \<le> 4 then 0 else 1))"
    using h by (simp split: if_splits)
  thus ?thesis by (simp only: mod_mult_self2) simp
qed

lemma jeudi_lundi: "(m + 4) mod 7 = 1 \<Longrightarrow> jeudi m = m + 3"
  by (simp add: jeudi_def)

lemma lundi_semaine: "(premierLundi y + 7 * (k - 1) + 4) mod 7 = 1"
proof -
  have "premierLundi y + 7 * (k - 1) + 4 = (premierLundi y + 4) + 7 * (k - 1)" by simp
  thus ?thesis by (simp only: mod_mult_self2 premierLundi_lundi)
qed

lemma plafond_semaine:
  fixes c k :: int
  assumes "1 \<le> c" "c \<le> 7"
  shows "- ((- (c + 7 * (k - 1))) div 7) = k"
proof -
  have "- (c + 7 * (k - 1)) = (- c) + 7 * (- (k - 1))" by simp
  hence "(- (c + 7 * (k - 1))) div 7 = - (k - 1) + (- c) div 7"
    by (simp only: div_mult_self2)
  moreover have "(- c) div 7 = - 1" using assms by presburger
  ultimately show ?thesis by simp
qed

lemma annee_du_lundi:
  assumes "100 < y" "1 \<le> k" "premierLundi y + 7 * (k - 1) + 3 < DayFromYear (y + 1)"
  shows "99 < YearFromTime ((premierLundi y + 7 * (k - 1)) * msPerDay)"
proof -
  let ?m = "premierLundi y + 7 * (k - 1)"
  have lo: "DayFromYear y - 3 \<le> ?m" using premierLundi_bornes(1) [of y] assms(2) by simp
  show ?thesis
  proof (cases "DayFromYear y \<le> ?m")
    case True
    have "YearFromTime (?m * msPerDay) = y"
      by (rule YearFromTime_eq) (use True assms(3) in simp_all)
    with assms(1) show ?thesis by simp
  next
    case False
    have "DayFromYear (y - 1 + 1) = DayFromYear (y - 1) + DaysInYear (y - 1)"
      by (rule DayFromYear_Suc)
    with DaysInYear_pos [of "y - 1"] have "DayFromYear (y - 1) + 365 \<le> DayFromYear y" by simp
    with lo have "DayFromYear (y - 1) \<le> ?m" by simp
    moreover from False have "?m < DayFromYear (y - 1 + 1)" by simp
    ultimately have "YearFromTime (?m * msPerDay) = y - 1"
      by (intro YearFromTime_eq) simp_all
    with assms(1) show ?thesis by simp
  qed
qed

text \<open>The ISO year of a date: the calendar year of the Thursday of its week.\<close>

fun anneeISO :: "date \<Rightarrow> int" where
  "anneeISO (Date t) = YearFromTime (jeudi (Day t) * msPerDay)"

definition semaineISO :: "week \<Rightarrow> int \<times> int" where
  "semaineISO w = (getWeek (start w), anneeISO (start w))"

lemma semaineISO_week_of:
  assumes "100 < y" "1 \<le> k" "premierLundi y + 7 * (k - 1) + 3 < DayFromYear (y + 1)"
  shows "semaineISO (week_of y k) = (k, y)"
proof -
  let ?m = "premierLundi y + 7 * (k - 1)"
  have y99: "99 < y" using assms(1) by simp
  have j: "jeudi ?m = ?m + 3" by (rule jeudi_lundi) (rule lundi_semaine)
  have lo: "DayFromYear y \<le> ?m + 3" using premierLundi_bornes(1) [of y] assms(2) by simp
  have c: "1 \<le> premierLundi y + 4 - DayFromYear y" "premierLundi y + 4 - DayFromYear y \<le> 7"
    using premierLundi_bornes [of y] by simp_all
  have gw: "getWeek (Date (?m * msPerDay)) = - ((- (jeudi (Day (?m * msPerDay)) - DayFromYear y + 1)) div 7)"
    by (rule getWeek_eq) (use annee_du_lundi [OF assms] y99 j lo assms(3) in simp_all)
  have e: "jeudi (Day (?m * msPerDay)) - DayFromYear y + 1
               = (premierLundi y + 4 - DayFromYear y) + 7 * (k - 1)"
    unfolding Day_mult j by simp
  have "- ((- ((premierLundi y + 4 - DayFromYear y) + 7 * (k - 1))) div 7) = k"
    by (rule plafond_semaine) (use c in simp_all)
  with gw e have "getWeek (Date (?m * msPerDay)) = k" by simp
  hence w: "getWeek (start (week_of y k)) = k" by (simp add: week_of_eq [OF y99])
  have "YearFromTime ((?m + 3) * msPerDay) = y"
    by (rule YearFromTime_eq) (use lo assms(3) in simp_all)
  hence "anneeISO (Date (?m * msPerDay)) = y"
    unfolding anneeISO.simps Day_mult j .
  hence "anneeISO (start (week_of y k)) = y"
    by (simp add: week_of_eq [OF y99])
  with w show ?thesis by (simp add: semaineISO_def)
qed

lemma semaineISO_annee:
  assumes "100 < y" "premierLundi y + 7 * (n - 1) + 3 < DayFromYear (y + 1)"
  shows "map semaineISO (map (week_of y) [1..n]) = map (\<lambda>k. (k, y)) [1..n]"
proof -
  have "semaineISO (week_of y k) = (k, y)" if "k \<in> set [1..n]" for k
  proof -
    from that have k: "1 \<le> k" "k \<le> n" by simp_all
    hence "premierLundi y + 7 * (k - 1) + 3 < DayFromYear (y + 1)" using assms(2) by simp
    with assms(1) k(1) show ?thesis by (intro semaineISO_week_of)
  qed
  thus ?thesis by simp
qed

lemma semaineISO_annees:
  "map semaineISO (map (week_of 2024) [1..52]) = map (\<lambda>k. (k, 2024)) [1..52]"
  "map semaineISO (map (week_of 2025) [1..52]) = map (\<lambda>k. (k, 2025)) [1..52]"
  "map semaineISO (map (week_of 2026) [1..53]) = map (\<lambda>k. (k, 2026)) [1..53]"
  "map semaineISO (map (week_of 2027) [1..52]) = map (\<lambda>k. (k, 2027)) [1..52]"
  "map semaineISO (map (week_of 2028) [1..52]) = map (\<lambda>k. (k, 2028)) [1..52]"
  by (rule semaineISO_annee; simp add: premierLundi_vals DayFromYear_vals)+

lemma semaineISO_weeks:
  "map semaineISO weeks
     = concat (map (\<lambda>y. map (\<lambda>k. (k, y)) [1 .. getISOWeeksInYear y]) [2024 .. 2028])"
proof -
  have "map semaineISO weeks
      = map (\<lambda>k. (k, 2024)) [1..52] @ map (\<lambda>k. (k, 2025)) [1..52] @ map (\<lambda>k. (k, 2026)) [1..53]
        @ map (\<lambda>k. (k, 2027)) [1..52] @ map (\<lambda>k. (k, 2028)) [1..52]"
    unfolding weeks_concat map_append semaineISO_annees by (rule refl)
  thus ?thesis by (simp add: getISOWeeksInYear_vals)
qed

lemma distinct_semaineISO_weeks: "distinct (map semaineISO weeks)"
  by (auto simp: semaineISO_weeks getISOWeeksInYear_vals distinct_map inj_on_def)

lemma numero_bornes: "1 \<le> numero i"
  by (simp add: numero_def)

lemma semaineISO_weeks_nth:
  assumes "i < 261"
  shows "semaineISO (weeks ! i) = (numero i, annee i)"
proof -
  have "100 < annee i" by (simp add: annee_def)
  moreover have "premierLundi (annee i) + 7 * (numero i - 1) + 3 < DayFromYear (annee i + 1)"
    unfolding premierLundi_annee [OF assms] using assms by (auto simp: annee_def DayFromYear_vals)
  ultimately show ?thesis
    unfolding weeks_nth [OF assms] using numero_bornes by (intro semaineISO_week_of)
qed

text \<open>
  C9. The generated calendar: the weeks are, in order, ISO weeks 1 to 52 (53 in 2026) of
  the ISO years 2024 to 2028, each once, and the identifier of a week names its ISO
  week number and ISO year; the starts ascend strictly; each week ends six days after
  it starts; each week starts the day after the one before it ends, also from one year
  to the next.
\<close>

theorem calendrier_bien_forme:
  "map semaineISO weeks
      = concat (map (\<lambda>y. map (\<lambda>k. (k, y)) [1 .. getISOWeeksInYear y]) [2024 .. 2028])
   \<and> map getISOWeeksInYear [2024 .. 2028] = [52, 52, 53, 52, 52]
   \<and> distinct (map semaineISO weeks)
   \<and> list_all (\<lambda>w. wid w = ''S'' @ String_of (fst (semaineISO w)) @ ''/''
                          @ String_of (snd (semaineISO w))) weeks
   \<and> sorted_wrt (\<lambda>a b. valueOf (start a) < valueOf (start b)) weeks
   \<and> list_all (\<lambda>w. valueOf (fin w) = valueOf (start w) + 6 * msPerDay) weeks
   \<and> successively (\<lambda>a b. valueOf (start b) = valueOf (fin a) + msPerDay) weeks"
proof (intro conjI)
  show "map semaineISO weeks
      = concat (map (\<lambda>y. map (\<lambda>k. (k, y)) [1 .. getISOWeeksInYear y]) [2024 .. 2028])"
    by (rule semaineISO_weeks)
  show "map getISOWeeksInYear [2024 .. 2028] = [52, 52, 53, 52, 52]"
    by (simp add: getISOWeeksInYear_vals)
  show "distinct (map semaineISO weeks)"
    by (rule distinct_semaineISO_weeks)
  show "list_all (\<lambda>w. wid w = ''S'' @ String_of (fst (semaineISO w)) @ ''/''
                          @ String_of (snd (semaineISO w))) weeks"
    unfolding list_all_length length_weeks
    by (simp add: semaineISO_weeks_nth wid_weeks_nth)
  show "sorted_wrt (\<lambda>a b. valueOf (start a) < valueOf (start b)) weeks"
    unfolding sorted_wrt_iff_nth_less length_weeks
    by (simp add: start_weeks_nth msPerDay_def)
  show "list_all (\<lambda>w. valueOf (fin w) = valueOf (start w) + 6 * msPerDay) weeks"
    unfolding list_all_length length_weeks
    by (simp add: start_weeks_nth fin_weeks_nth algebra_simps)
  show "successively (\<lambda>a b. valueOf (start b) = valueOf (fin a) + msPerDay) weeks"
    unfolding successively_conv_nth length_weeks
    by (simp add: start_weeks_nth fin_weeks_nth algebra_simps)
qed

subsection \<open>No current week\<close>

fun dateOnly :: "date \<Rightarrow> date" where
  "dateOnly (Date t) = Date (Day t * msPerDay)"

lemma contient_dateOnly:
  assumes "w \<in> set weeks" "contient a w"
  shows "contient (dateOnly a) w"
proof -
  obtain t where a: "a = Date t" by (cases a)
  from assms(1) obtain i where i: "i < 261" "w = weeks ! i"
    by (auto simp: in_set_conv_nth length_weeks)
  let ?m = "19723 + 7 * int i"
  from assms(2) have c: "?m * msPerDay \<le> t" "t \<le> (?m + 6) * msPerDay"
    by (simp_all add: contient_def a i start_weeks_nth fin_weeks_nth)
  have "Day (?m * msPerDay) \<le> Day t"
    unfolding Day_def using c(1) by (intro zdiv_mono1) (simp_all add: msPerDay_def)
  hence "?m \<le> Day t" by (simp only: Day_mult)
  hence "?m * msPerDay \<le> Day t * msPerDay"
    using msPerDay_pos by (intro mult_right_mono) simp_all
  moreover have "Day t * msPerDay \<le> t"
    using Day_TimeWithinDay [of t] by (simp add: TimeWithinDay_def msPerDay_def)
  ultimately show ?thesis
    using c(2) by (simp add: contient_def a i start_weeks_nth fin_weeks_nth)
qed

text \<open>
  C5. When the anchor (the clock's wall time, a Sunday moved back to the Saturday),
  cut to its date, lies in the span of no week of the calendar, the run stops at
  once: it reports the abandon and the state it returns is the state it was given.
\<close>

theorem abandon_hors_calendrier:
  assumes "\<not> (\<exists>w \<in> set weeks. contient (dateOnly (nowFixed now)) w)"
  shows "repartitionAutomatique weeks now s = (Abandon, s)"
proof -
  have "\<forall>w \<in> set weeks. \<not> contient (nowFixed now) w"
    using assms contient_dateOnly by blast
  hence "currentWeekIdx weeks now = None"
    by (simp add: currentWeekIdx_None)
  thus ?thesis by (simp add: repartitionAutomatique_def)
qed

theorem abandon_hors_calendrier_witness:
  "\<not> (\<exists>w \<in> set weeks. contient (dateOnly (nowFixed (Date_UTC 2029 0 3 10 0))) w)
   \<and> repartitionAutomatique weeks (Date_UTC 2029 0 3 10 0) (ex_etat ''Nouveau'')
       = (Abandon, ex_etat ''Nouveau'')"
proof -
  have n: "dateOnly (nowFixed (Date_UTC 2029 0 3 10 0)) = Date (21552 * msPerDay)"
    by code_simp
  have h: "\<not> (\<exists>w \<in> set weeks. contient (dateOnly (nowFixed (Date_UTC 2029 0 3 10 0))) w)"
    unfolding n by (auto simp: in_set_conv_nth length_weeks contient_def fin_weeks_nth msPerDay_def)
  from abandon_hors_calendrier [OF h] h show ?thesis by simp
qed

section \<open>Where the code departs from the specification\<close>

lemma findIndex_from_eq:
  "k < length xs \<Longrightarrow> P (xs ! k) \<Longrightarrow> (\<forall>j < k. \<not> P (xs ! j)) \<Longrightarrow>
     findIndex_from i P xs = Some (i + k)"
proof (induction xs arbitrary: i k)
  case Nil
  thus ?case by simp
next
  case (Cons x xs)
  show ?case
  proof (cases k)
    case 0
    with Cons.prems show ?thesis by simp
  next
    case (Suc k')
    with Cons.prems have nx: "\<not> P x" by auto
    have "findIndex_from (i + 1) P xs = Some (i + 1 + k')"
      using Cons.prems Suc by (intro Cons.IH) auto
    with nx Suc show ?thesis by simp
  qed
qed

subsection \<open>Two weeks of one key\<close>

text \<open>
  The key of a week pairs the calendar year of its Monday with its ISO week number.
  The week of Monday 2024-12-30 is ISO week 1 of 2025, so it gets the key of the week
  of Monday 2024-01-01, and \<open>weekMap\<close> keeps the later of the two, index 52.
\<close>

lemma weekKey_0_52:
  "weekKey (weeks ! 0) = ''2024-W01-1''" "weekKey (weeks ! 52) = ''2024-W01-1''"
proof -
  have "weekKey (week_of 2024 1) = ''2024-W01-1''" by code_simp
  thus "weekKey (weeks ! 0) = ''2024-W01-1''" by (simp add: weeks_nth annee_def numero_def)
  have "weekKey (week_of 2025 1) = ''2024-W01-1''" by code_simp
  thus "weekKey (weeks ! 52) = ''2024-W01-1''" by (simp add: weeks_nth annee_def numero_def)
qed

lemma mars_2024: "currentWeekIdx weeks (Date_UTC 2024 2 5 10 0) = Some 9"
proof -
  have n: "nowFixed (Date_UTC 2024 2 5 10 0) = Date 1709632800000" by code_simp
  have "findIndex_from 0 (contient (Date 1709632800000)) weeks = Some (0 + 9)"
    by (rule findIndex_from_eq)
       (auto simp: length_weeks contient_def start_weeks_nth fin_weeks_nth msPerDay_def)
  thus ?thesis by (simp add: currentWeekIdx_def findIndex_def n)
qed

definition ex_etat_2024 :: etat where
  "ex_etat_2024 = \<lparr> data = [(''A'', [(''2024-W10-1'', Num 2400)])],
     chantiers = [\<lparr> ident = ''CH-3'', libelle = ''Poste C'', status = Annule,
       prepTime = 600, endDate = (29, 3, 2024), preparateur = Some ''A'',
       planification = Some [(''2024-W01-1'', 60)],
       ChargeRestante = None, tempsRestant = None \<rparr>] \<rparr>"

text \<open>
  C4 fails on the program's calendar. Clock Tuesday 2024-03-05 10:00: the current week has
  index 9; a cancelled job holds 60 minutes in the week of index 0, the first week of
  January 2024; after the run that entry is gone.
\<close>

theorem deprogrammation_efface_passe:
  "currentWeekIdx weeks (Date_UTC 2024 2 5 10 0) = Some 9
   \<and> weekKey (weeks ! 0) = ''2024-W01-1''
   \<and> \<not> actif (chantiers ex_etat_2024 ! 0)
   \<and> planification (chantiers ex_etat_2024 ! 0) = Some [(''2024-W01-1'', 60)]
   \<and> planification (chantiers (snd (repartitionAutomatique weeks (Date_UTC 2024 2 5 10 0) ex_etat_2024)) ! 0)
       = Some []"
proof -
  have h2: "0 < length (chantiers ex_etat_2024)" by (simp add: ex_etat_2024_def)
  have h3: "\<not> actif (chantiers ex_etat_2024 ! 0)" by code_simp
  have p: "planification (chantiers ex_etat_2024 ! 0) = Some [(''2024-W01-1'', 60)]"
    by (simp add: ex_etat_2024_def)
  have "weeks ! 52 \<in> set (drop 9 weeks)"
    by (auto simp: in_set_conv_nth length_weeks intro!: exI [of _ 43])
  hence "weekKey (weeks ! 52) \<in> weekKey ` set (drop 9 weeks)" by (rule imageI)
  hence f: "dansFutur weeks 9 ''2024-W01-1''"
    by (simp add: dansFutur_iff weekKey_0_52)
  from deprogrammation_inactifs [OF mars_2024 h2 h3] p f mars_2024 weekKey_0_52(1) h3
  show ?thesis by simp
qed

subsection \<open>The badge pass\<close>

text \<open>
  C3, as the code has it. A week whose \<open>dispo\<close> is not positive gets the badge \<open>null\<close>
  and leaves \<open>lastTdisp\<close> as it was: the week after it is compared with the tension
  of the last week that had availability, not with the tension of the week without.
\<close>

theorem badge_sans_dispo:
  assumes "k1 \<noteq> k2"
    and "map_of table k1 = Some c1" "Tdisp c1 = Some (Fini r1)" "dispo c1 \<le> 0"
    and "map_of table k2 = Some c2" "Tdisp c2 = Some (Fini r2)"
  shows "badge_semaine k1 (Some (table, lastT))
           = Some (AList.update k1 (c1\<lparr>badge := None\<rparr>) table, lastT)
       \<and> badge_semaine k2 (badge_semaine k1 (Some (table, lastT)))
           = Some (AList.update k2 (c2\<lparr>badge := fst (badge_de (dispo c2) r2 lastT)\<rparr>)
                     (AList.update k1 (c1\<lparr>badge := None\<rparr>) table),
                   snd (badge_de (dispo c2) r2 lastT))"
proof -
  have 1: "badge_semaine k1 (Some (table, lastT))
           = Some (AList.update k1 (c1\<lparr>badge := None\<rparr>) table, lastT)"
    using assms(2-4) by (simp add: badge_de_def)
  have "map_of (AList.update k1 (c1\<lparr>badge := None\<rparr>) table) k2 = Some c2"
    using assms(1,5) by (simp add: update_conv')
  hence 2: "badge_semaine k2 (Some (AList.update k1 (c1\<lparr>badge := None\<rparr>) table, lastT))
           = Some (AList.update k2 (c2\<lparr>badge := fst (badge_de (dispo c2) r2 lastT)\<rparr>)
                     (AList.update k1 (c1\<lparr>badge := None\<rparr>) table),
                   snd (badge_de (dispo c2) r2 lastT))"
    using assms(6) by simp
  show ?thesis unfolding 1 using 2 by simp
qed

theorem badge_sans_dispo_witness:
  "badge_semaine ''2026-W47-1''
     (badge_semaine ''2026-W46-1''
        (Some ([(''2026-W46-1'', \<lparr>dispo = 0, C = 0, CA = 10, M = 10, Tdisp = Some (Fini (- 5)), badge = None\<rparr>),
                (''2026-W47-1'', \<lparr>dispo = 10, C = 0, CA = 20, M = 20, Tdisp = Some (Fini (- 5)), badge = None\<rparr>)],
               Some 10)))
   = Some ([(''2026-W46-1'', \<lparr>dispo = 0, C = 0, CA = 10, M = 10, Tdisp = Some (Fini (- 5)), badge = None\<rparr>),
            (''2026-W47-1'', \<lparr>dispo = 10, C = 0, CA = 20, M = 20, Tdisp = Some (Fini (- 5)), badge = Some (- 15)\<rparr>)],
           Some (- 5))"
proof -
  let ?c1 = "\<lparr>dispo = 0, C = 0, CA = 10, M = 10, Tdisp = Some (Fini (- 5)), badge = None\<rparr>"
  let ?c2 = "\<lparr>dispo = 10, C = 0, CA = 20, M = 20, Tdisp = Some (Fini (- 5)), badge = None\<rparr>"
  let ?t = "[(''2026-W46-1'', ?c1), (''2026-W47-1'', ?c2)]"
  have "''2026-W46-1'' \<noteq> ''2026-W47-1''" by simp
  moreover have "map_of ?t ''2026-W46-1'' = Some ?c1" by simp
  moreover have "Tdisp ?c1 = Some (Fini (- 5))" "dispo ?c1 \<le> 0" by simp_all
  moreover have "map_of ?t ''2026-W47-1'' = Some ?c2" by simp
  moreover have "Tdisp ?c2 = Some (Fini (- 5))" by simp
  ultimately have "badge_semaine ''2026-W47-1'' (badge_semaine ''2026-W46-1'' (Some (?t, Some 10)))
           = Some (AList.update ''2026-W47-1'' (?c2\<lparr>badge := fst (badge_de (dispo ?c2) (- 5) (Some 10))\<rparr>)
                     (AList.update ''2026-W46-1'' (?c1\<lparr>badge := None\<rparr>) ?t),
                   snd (badge_de (dispo ?c2) (- 5) (Some 10)))"
    by (rule badge_sans_dispo [THEN conjunct2])
  moreover have "fst (badge_de (dispo ?c2) (- 5) (Some 10)) = Some (- 15)"
    "snd (badge_de (dispo ?c2) (- 5) (Some 10)) = Some (- 5)"
    by code_simp+
  ultimately show ?thesis by simp
qed


text \<open>
  The claim as written fails on this table of three weeks (the tensions 10, -5, -5 are
  those of a preparer with 10 hours in the first and third week, none in the second,
  and a job of 25 hours due sixteen weeks after the first). The second week has no
  availability; \<open>lastTdisp\<close> stays at the first week's 10, and the third week gets the
  badge -15, the change from the first week's tension. Had \<open>lastTdisp\<close> been set to
  the second week's -5, the third week would show no change and its badge would be
  \<open>null\<close>.
\<close>

definition ex_table :: marges where
  "ex_table =
     [(''2026-W45-1'', \<lparr>dispo = 10, C = 0, CA = 10, M = 10, Tdisp = Some (Fini 10), badge = None\<rparr>),
      (''2026-W46-1'', \<lparr>dispo = 0, C = 0, CA = 10, M = 10, Tdisp = Some (Fini (- 5)), badge = None\<rparr>),
      (''2026-W47-1'', \<lparr>dispo = 10, C = 0, CA = 20, M = 20, Tdisp = Some (Fini (- 5)), badge = None\<rparr>)]"

theorem badge_sans_dispo_counterexample:
  "badges [''2026-W45-1'', ''2026-W46-1''] ex_table
     = Some ([(''2026-W45-1'', \<lparr>dispo = 10, C = 0, CA = 10, M = 10, Tdisp = Some (Fini 10), badge = Some 10\<rparr>),
              (''2026-W46-1'', \<lparr>dispo = 0, C = 0, CA = 10, M = 10, Tdisp = Some (Fini (- 5)), badge = None\<rparr>),
              (''2026-W47-1'', \<lparr>dispo = 10, C = 0, CA = 20, M = 20, Tdisp = Some (Fini (- 5)), badge = None\<rparr>)],
             Some 10)
   \<and> badges [''2026-W45-1'', ''2026-W46-1'', ''2026-W47-1''] ex_table
     = Some ([(''2026-W45-1'', \<lparr>dispo = 10, C = 0, CA = 10, M = 10, Tdisp = Some (Fini 10), badge = Some 10\<rparr>),
              (''2026-W46-1'', \<lparr>dispo = 0, C = 0, CA = 10, M = 10, Tdisp = Some (Fini (- 5)), badge = None\<rparr>),
              (''2026-W47-1'', \<lparr>dispo = 10, C = 0, CA = 20, M = 20, Tdisp = Some (Fini (- 5)), badge = Some (- 15)\<rparr>)],
             Some (- 5))
   \<and> fst (badge_de 10 (- 5) (Some (- 5))) = None"
  by code_simp

subsection \<open>The scratch field\<close>

lemma traites_ChargeRestante:
  assumes "p < length (chantierList chs name)"
  shows "ChargeRestante (traites ws cur d name chs ! p) \<noteq> None"
proof -
  let ?js = "map (reinitialiser ws cur) (map snd (chantierList chs name))"
  have lp: "p < length ?js" using assms by simp
  from repartir_nth_seul [OF lp] obtain x where
    "traites ws cur d name chs ! p = (?js ! p)\<lparr>planification := x\<rparr>"
    unfolding traites_def by blast
  moreover have "ChargeRestante (?js ! p) \<noteq> None"
    using assms by (simp add: reinitialiser_def Let_def)
  ultimately show ?thesis by simp
qed

lemma traiter_ChargeRestante:
  assumes "i < length chs"
  shows "(selectionne name (chs ! i) \<longrightarrow> ChargeRestante (traiter_preparateur ws cur d name chs ! i) \<noteq> None)
       \<and> (ChargeRestante (chs ! i) \<noteq> None \<longrightarrow> ChargeRestante (traiter_preparateur ws cur d name chs ! i) \<noteq> None)"
proof (cases "selectionne name (chs ! i)")
  case False
  thus ?thesis by (simp add: traiter_autre)
next
  case True
  with assms have "(i, chs ! i) \<in> set (chantierList chs name)" by (auto simp: set_chantierList)
  then obtain p where p: "p < length (chantierList chs name)" "chantierList chs name ! p = (i, chs ! i)"
    by (auto simp: in_set_conv_nth)
  from traiter_selectionne [OF p(1), of ws cur d] traites_ChargeRestante [OF p(1), of ws cur d] p(2)
  show ?thesis by simp
qed

lemma traiter_selectionne_conserve:
  assumes "i < length chs"
  shows "selectionne n (traiter_preparateur ws cur d name chs ! i) = selectionne n (chs ! i)"
proof -
  from traiter_seul [OF assms, of ws cur d name] obtain x y where
    "traiter_preparateur ws cur d name chs ! i = (chs ! i)\<lparr>planification := x, ChargeRestante := y\<rparr>"
    by blast
  thus ?thesis by (simp add: selectionne_def actif_def)
qed

lemma fold_traiter_ChargeRestante:
  "i < length chs \<Longrightarrow> selectionne name (chs ! i) \<Longrightarrow>
   name \<in> set names \<or> ChargeRestante (chs ! i) \<noteq> None \<Longrightarrow>
   ChargeRestante (fold (traiter_preparateur ws cur d) names chs ! i) \<noteq> None"
proof (induction names arbitrary: chs)
  case Nil
  thus ?case by simp
next
  case (Cons n names)
  let ?c1 = "traiter_preparateur ws cur d n chs"
  have l: "i < length ?c1" using Cons.prems(1) by simp
  have s: "selectionne name (?c1 ! i)"
    using Cons.prems(1,2) by (simp add: traiter_selectionne_conserve)
  have "name \<in> set names \<or> ChargeRestante (?c1 ! i) \<noteq> None"
    using Cons.prems traiter_ChargeRestante [OF Cons.prems(1), of n ws cur d] by auto
  from Cons.IH [OF l s this] show ?case by simp
qed

text \<open>
  C8, evaluated. After a run that finds the current week, every active job of a
  preparer of the availability store carries the field \<open>ChargeRestante\<close>, whatever it
  held before: the first loop writes it, and the cleanup deletes \<open>tempsRestant\<close>, a
  field the run never writes.
\<close>

theorem ChargeRestante_persiste:
  assumes "currentWeekIdx ws now = Some cur"
    and "i < length (chantiers s)"
    and "selectionne name (chantiers s ! i)"
    and "name \<in> fst ` set (data s)"
  shows "ChargeRestante (chantiers (snd (repartitionAutomatique ws now s)) ! i) \<noteq> None"
proof -
  let ?c0 = "map (deprogrammer ws cur) (chantiers s)"
  have l: "i < length ?c0" using assms(2) by simp
  have sel: "selectionne name (?c0 ! i)" using assms(2,3) by simp
  have "name \<in> set (map fst (data s)) \<or> ChargeRestante (?c0 ! i) \<noteq> None"
    using assms(4) by simp
  from fold_traiter_ChargeRestante [OF l sel this]
  have "ChargeRestante (fold (traiter_preparateur ws cur (data s)) (map fst (data s)) ?c0 ! i) \<noteq> None" .
  thus ?thesis using assms(1,2) by (simp add: chantiers_repartition)
qed

theorem ChargeRestante_persiste_witness:
  "currentWeekIdx ex_semaines (Date_UTC 2026 10 10 9 30) = Some 1
   \<and> selectionne ''A'' (chantiers (ex_etat ''Nouveau'') ! 0)
   \<and> ChargeRestante (chantiers (ex_etat ''Nouveau'') ! 0) = None
   \<and> ChargeRestante (chantiers (snd (repartitionAutomatique ex_semaines (Date_UTC 2026 10 10 9 30)
                                        (ex_etat ''Nouveau''))) ! 0) \<noteq> None"
proof -
  have h1: "currentWeekIdx ex_semaines (Date_UTC 2026 10 10 9 30) = Some 1" by code_simp
  have h2: "0 < length (chantiers (ex_etat ''Nouveau''))" by code_simp
  have h3: "selectionne ''A'' (chantiers (ex_etat ''Nouveau'') ! 0)" by code_simp
  have h4: "''A'' \<in> fst ` set (data (ex_etat ''Nouveau''))" by (simp add: ex_etat_def)
  have h5: "ChargeRestante (chantiers (ex_etat ''Nouveau'') ! 0) = None" by code_simp
  from ChargeRestante_persiste [OF h1 h2 h3 h4] h1 h3 h5 show ?thesis by simp
qed

section \<open>The capacity bound of the greedy walk\<close>

subsection \<open>Allocation at a key\<close>

definition total :: "string \<Rightarrow> chantier list \<Rightarrow> int" where
  "total k L = sum_list (map (planifie k) L)"

definition dispoVal :: "(string \<times> int) list \<Rightarrow> string \<Rightarrow> int" where
  "dispoVal dispoPS k = (case map_of dispoPS k of None \<Rightarrow> 0 | Some v \<Rightarrow> v)"

text \<open>The availability the run reads for a preparer and a key.\<close>

definition disponible :: "(string \<times> (string \<times> stored) list) list \<Rightarrow> string \<Rightarrow> string \<Rightarrow> int" where
  "disponible d name key = minutes_of (case map_of d name of None \<Rightarrow> None | Some m \<Rightarrow> map_of m key)"

lemma total_append [simp]: "total k (a @ b) = total k a + total k b"
  by (simp add: total_def)

lemma total_Cons [simp]: "total k (c # b) = planifie k c + total k b"
  by (simp add: total_def)

lemma total_Nil [simp]: "total k [] = 0"
  by (simp add: total_def)

lemma planifie_update:
  "planifie k (ch\<lparr>planification := Some (AList.update key v (planif_of ch))\<rparr>)
     = (if k = key then v else planifie k ch)"
  by (simp add: planifie_def planif_of_def update_conv')

lemma planifier_cases:
  obtains (rien) "planifier d a b w (ch, r) = (ch, r)"
  | (place) t where "0 < r" "0 < t" "t \<le> r"
      "t \<le> dispoVal d (weekKey w) - total (weekKey w) (a @ ch # b)"
      "r \<le> t \<or> dispoVal d (weekKey w) - total (weekKey w) (a @ ch # b) \<le> t"
      "planifier d a b w (ch, r)
         = (ch\<lparr>planification := Some (AList.update (weekKey w) (planifie (weekKey w) ch + t) (planif_of ch))\<rparr>,
            r - t)"
proof (cases "r \<le> 0")
  case True
  hence "planifier d a b w (ch, r) = (ch, r)" by simp
  thus ?thesis by (rule rien)
next
  case False
  let ?fr = "max 0 (dispoVal d (weekKey w) - total (weekKey w) (a @ ch # b))"
  let ?t = "min r ?fr"
  show ?thesis
  proof (cases "0 < ?t")
    case False
    with \<open>\<not> r \<le> 0\<close> have "planifier d a b w (ch, r) = (ch, r)"
      by (simp add: Let_def dispoVal_def total_def)
    thus ?thesis by (rule rien)
  next
    case True
    have "planifier d a b w (ch, r)
         = (ch\<lparr>planification := Some (AList.update (weekKey w) (planifie (weekKey w) ch + ?t) (planif_of ch))\<rparr>,
            r - ?t)"
      using True \<open>\<not> r \<le> 0\<close> by (simp add: Let_def dispoVal_def total_def)
    moreover have "0 < r" using \<open>\<not> r \<le> 0\<close> by simp
    moreover have "?t \<le> r" by simp
    moreover have "?t \<le> dispoVal d (weekKey w) - total (weekKey w) (a @ ch # b)"
      using True by (auto simp: min_def max_def split: if_splits)
    moreover have "r \<le> ?t \<or> dispoVal d (weekKey w) - total (weekKey w) (a @ ch # b) \<le> ?t"
      by (auto simp: min_def max_def)
    ultimately show ?thesis using True by (intro place [of ?t]) 
  qed
qed


text \<open>One step keeps the capacity bound at every key.\<close>

lemma planifier_cap:
  assumes "total k (a @ ch # b) \<le> max 0 (dispoVal d k)"
  shows "total k (a @ fst (planifier d a b w (ch, r)) # b) \<le> max 0 (dispoVal d k)"
proof (cases rule: planifier_cases [of d a b w ch r])
  case rien
  with assms show ?thesis by simp
next
  case (place t)
  show ?thesis
  proof (cases "k = weekKey w")
    case True
    with place(4) have "total k (a @ ch # b) + t \<le> dispoVal d k" by simp
    thus ?thesis using place(6) True by (simp add: planifie_update)
  next
    case False
    with assms place(6) show ?thesis by (simp add: planifie_update)
  qed
qed

lemma fold_planifier_cap:
  "total k (a @ ch # b) \<le> max 0 (dispoVal d k) \<Longrightarrow>
   total k (a @ fst (fold (planifier d a b) pw (ch, r)) # b) \<le> max 0 (dispoVal d k)"
proof (induction pw arbitrary: ch r)
  case Nil
  thus ?case by simp
next
  case (Cons w pw)
  obtain ch1 r1 where s: "planifier d a b w (ch, r) = (ch1, r1)" by (cases "planifier d a b w (ch, r)")
  from planifier_cap [OF Cons.prems, of w r] s
  have "total k (a @ ch1 # b) \<le> max 0 (dispoVal d k)" by simp
  from Cons.IH [OF this, of r1] s show ?case by simp
qed

lemma repartir_inv:
  assumes "P (avant @ apres)"
    and "\<And>a c b. P (a @ c # b) \<Longrightarrow> P (a @ planifier_chantier d pw a c b # b)"
  shows "P (repartir d pw avant apres)"
  using assms(1)
proof (induction apres arbitrary: avant)
  case Nil
  thus ?case by simp
next
  case (Cons c apres)
  from assms(2) [OF Cons.prems]
  have "P ((avant @ [planifier_chantier d pw avant c apres]) @ apres)" by simp
  from Cons.IH [OF this] show ?case by simp
qed

lemma repartir_cap:
  assumes "total k (avant @ apres) \<le> max 0 (dispoVal d k)"
  shows "total k (repartir d pw avant apres) \<le> max 0 (dispoVal d k)"
proof (rule repartir_inv [where P = "\<lambda>L. total k L \<le> max 0 (dispoVal d k)"])
  show "total k (avant @ apres) \<le> max 0 (dispoVal d k)" by (rule assms)
next
  fix a c b
  assume "total k (a @ c # b) \<le> max 0 (dispoVal d k)"
  thus "total k (a @ planifier_chantier d pw a c b # b) \<le> max 0 (dispoVal d k)"
    unfolding planifier_chantier_def by (rule fold_planifier_cap)
qed

subsection \<open>After the reset a job holds nothing at a future key\<close>

lemma map_of_filter_cle:
  "map_of (filter (\<lambda>e. Q (fst e)) p) k = (if Q k then map_of p k else None)"
  by (induction p) auto

lemma planifie_reinitialiser:
  "\<not> dansPasse ws cur k \<Longrightarrow> planifie k (reinitialiser ws cur ch) = 0"
proof -
  assume "\<not> dansPasse ws cur k"
  hence "map_of (filter (\<lambda>e. dansPasse ws cur (fst e)) (planif_of ch)) k = None"
    by (simp add: map_of_filter_cle)
  thus ?thesis
    by (simp add: planifie_def planif_of_def reinitialiser_def Let_def passe_entry_def [abs_def])
qed

lemma total_reinitialiser:
  "\<not> dansPasse ws cur k \<Longrightarrow> total k (map (reinitialiser ws cur) js) = 0"
  by (induction js) (simp_all add: planifie_reinitialiser)

lemma total_traites:
  assumes "dansFutur ws cur k"
  shows "total k (traites ws cur d name chs) \<le> max 0 (dispoVal (dispoParSemaine ws d name) k)"
proof -
  have "\<not> dansPasse ws cur k" using assms passe_non_futur by blast
  from total_reinitialiser [OF this]
  have "total k ([] @ map (reinitialiser ws cur) (map snd (chantierList chs name))) = 0"
    by (simp only: append_Nil)
  hence "total k ([] @ map (reinitialiser ws cur) (map snd (chantierList chs name)))
           \<le> max 0 (dispoVal (dispoParSemaine ws d name) k)" by simp
  thus ?thesis unfolding traites_def by (rule repartir_cap)
qed

lemma map_of_dispo_entry:
  "k \<in> set ks \<Longrightarrow> map_of (map (dispo_entry d name) ks) k = Some (disponible d name k)"
  by (induction ks) (auto simp: dispo_entry_def disponible_def)

lemma dispoVal_dispoParSemaine:
  assumes "k \<in> weekKey ` set ws"
  shows "dispoVal (dispoParSemaine ws d name) k = disponible d name k"
proof -
  have "k \<in> set (map fst (weekMap ws))"
    using assms weekMap_None [of ws k] by (auto simp: map_of_eq_None_iff)
  from map_of_dispo_entry [OF this]
  show ?thesis by (simp add: dispoVal_def dispoParSemaine_def)
qed

subsection \<open>The allocation of a preparer at a key, read in the job store\<close>

definition charge :: "string \<Rightarrow> string \<Rightarrow> chantier list \<Rightarrow> int" where
  "charge name k chs = sum_list (map (planifie k) (filter (selectionne name) chs))"

definition indices :: "string \<Rightarrow> chantier list \<Rightarrow> nat set" where
  "indices name chs = {i. i < length chs \<and> selectionne name (chs ! i)}"

lemma filter_nth: "filter Q xs = map ((!) xs) (filter (\<lambda>i. Q (xs ! i)) [0..<length xs])"
proof -
  have "filter Q (map ((!) xs) [0..<length xs]) = map ((!) xs) (filter (Q \<circ> (!) xs) [0..<length xs])"
    by (rule filter_map)
  thus ?thesis by (simp add: map_nth comp_def)
qed

lemma charge_indices: "charge name k chs = (\<Sum>i \<in> indices name chs. planifie k (chs ! i))"
proof -
  let ?I = "filter (\<lambda>i. selectionne name (chs ! i)) [0..<length chs]"
  have "charge name k chs = sum_list (map (\<lambda>i. planifie k (chs ! i)) ?I)"
    unfolding charge_def by (subst filter_nth) (simp add: comp_def)
  also have "\<dots> = (\<Sum>i \<in> set ?I. planifie k (chs ! i))"
    by (rule sum_list_distinct_conv_sum_set) simp
  also have "set ?I = indices name chs" by (auto simp: indices_def)
  finally show ?thesis .
qed

lemma set_indices_chantierList: "set (map fst (chantierList chs name)) = indices name chs"
  by (auto simp: set_chantierList indices_def image_iff)

lemma traites_map:
  "traites ws cur d name chs
     = map ((!) (traiter_preparateur ws cur d name chs)) (map fst (chantierList chs name))"
  by (rule nth_equalityI) (simp_all add: traiter_selectionne)

lemma total_traites_indices:
  "total k (traites ws cur d name chs)
     = (\<Sum>i \<in> indices name chs. planifie k (traiter_preparateur ws cur d name chs ! i))"
proof -
  let ?T = "traiter_preparateur ws cur d name chs"
  have "total k (traites ws cur d name chs)
          = sum_list (map (\<lambda>i. planifie k (?T ! i)) (map fst (chantierList chs name)))"
    by (subst traites_map) (simp add: total_def comp_def)
  also have "\<dots> = (\<Sum>i \<in> set (map fst (chantierList chs name)). planifie k (?T ! i))"
    by (rule sum_list_distinct_conv_sum_set) (rule distinct_chantierList)
  finally show ?thesis by (simp only: set_indices_chantierList)
qed

lemma indices_traiter:
  "indices n (traiter_preparateur ws cur d name chs) = indices n chs"
  by (auto simp: indices_def traiter_selectionne_conserve)

lemma charge_traiter:
  "charge name k (traiter_preparateur ws cur d name chs) = total k (traites ws cur d name chs)"
  by (simp add: charge_indices indices_traiter total_traites_indices)

lemma charge_traiter_autre:
  assumes "n \<noteq> name"
  shows "charge name k (traiter_preparateur ws cur d n chs) = charge name k chs"
proof -
  have "\<And>i. i \<in> indices name chs \<Longrightarrow> traiter_preparateur ws cur d n chs ! i = chs ! i"
  proof -
    fix i assume "i \<in> indices name chs"
    hence "\<not> selectionne n (chs ! i)" using assms by (auto simp: indices_def selectionne_def)
    thus "traiter_preparateur ws cur d n chs ! i = chs ! i" by (rule traiter_autre)
  qed
  thus ?thesis by (simp add: charge_indices indices_traiter)
qed

lemma charge_traiter_cap:
  assumes "dansFutur ws cur k"
  shows "charge name k (traiter_preparateur ws cur d name chs) \<le> max 0 (disponible d name k)"
proof -
  have "k \<in> weekKey ` set ws" using assms by (auto simp: dansFutur_iff dest: in_set_dropD)
  from total_traites [OF assms, of d name chs] dispoVal_dispoParSemaine [OF this, of d name]
  show ?thesis by (simp add: charge_traiter)
qed

lemma fold_traiter_cap:
  assumes "dansFutur ws cur k"
  shows "name \<in> set names \<Longrightarrow>
     charge name k (fold (traiter_preparateur ws cur d) names chs) \<le> max 0 (disponible d name k)"
proof (induction names rule: rev_induct)
  case Nil
  thus ?case by simp
next
  case (snoc n names)
  show ?case
  proof (cases "n = name")
    case True
    thus ?thesis using charge_traiter_cap [OF assms] by simp
  next
    case False
    with snoc.prems have "name \<in> set names" by auto
    from snoc.IH [OF this] False show ?thesis by (simp add: charge_traiter_autre)
  qed
qed

lemma selectionne_nettoyer [simp]: "selectionne name (nettoyer ch) = selectionne name ch"
  by (simp add: selectionne_def nettoyer_def actif_def)

lemma planifie_nettoyer [simp]: "planifie k (nettoyer ch) = planifie k ch"
  by (simp add: planifie_def planif_of_def)

lemma charge_nettoyer [simp]: "charge name k (map nettoyer chs) = charge name k chs"
  by (simp add: charge_def filter_map comp_def)

text \<open>
  C10. After a run that finds the current week, for every preparer of the availability
  store and every calendar week from the current one on, the minutes that the preparer's
  active jobs hold at that week's key add up to at most the availability stored for that
  key. The bound is \<open>max 0\<close> of the stored number, and the stored number itself when it is
  not negative, as the data model has it.
\<close>

theorem capacite_respectee:
  assumes "currentWeekIdx ws now = Some cur"
    and "name \<in> fst ` set (data s)"
    and "w \<in> set (drop cur ws)"
  shows "charge name (weekKey w) (chantiers (snd (repartitionAutomatique ws now s)))
           \<le> max 0 (disponible (data s) name (weekKey w))
       \<and> (0 \<le> disponible (data s) name (weekKey w) \<longrightarrow>
            charge name (weekKey w) (chantiers (snd (repartitionAutomatique ws now s)))
              \<le> disponible (data s) name (weekKey w))"
proof -
  have f: "dansFutur ws cur (weekKey w)" using assms(3) by (rule futur_planWeeks)
  have n: "name \<in> set (map fst (data s))" using assms(2) by simp
  from fold_traiter_cap [OF f n]
  have "charge name (weekKey w) (chantiers (snd (repartitionAutomatique ws now s)))
           \<le> max 0 (disponible (data s) name (weekKey w))"
    using assms(1) by (simp add: chantiers_repartition)
  thus ?thesis by (simp add: max_def split: if_splits)
qed

theorem capacite_respectee_witness:
  "currentWeekIdx ex_semaines (Date_UTC 2026 10 10 9 30) = Some 1
   \<and> ''A'' \<in> fst ` set (data (ex_etat ''Nouveau''))
   \<and> week_of 2026 46 \<in> set (drop 1 ex_semaines)
   \<and> disponible (data (ex_etat ''Nouveau'')) ''A'' (weekKey (week_of 2026 46)) = 2400
   \<and> charge ''A'' (weekKey (week_of 2026 46))
        (chantiers (snd (repartitionAutomatique ex_semaines (Date_UTC 2026 10 10 9 30) (ex_etat ''Nouveau''))))
       \<le> 2400"
proof -
  have h1: "currentWeekIdx ex_semaines (Date_UTC 2026 10 10 9 30) = Some 1" by code_simp
  have h2: "''A'' \<in> fst ` set (data (ex_etat ''Nouveau''))" by (simp add: ex_etat_def)
  have h3: "week_of 2026 46 \<in> set (drop 1 ex_semaines)" by (simp add: ex_semaines_def)
  have h4: "disponible (data (ex_etat ''Nouveau'')) ''A'' (weekKey (week_of 2026 46)) = 2400"
    by code_simp
  from capacite_respectee [OF h1 h2 h3] h1 h2 h3 h4 show ?thesis by simp
qed

section \<open>Conservation of the required minutes\<close>

subsection \<open>What a job holds at a list of keys\<close>

definition somme :: "string list \<Rightarrow> chantier \<Rightarrow> int" where
  "somme ks c = sum_list (map (\<lambda>k. planifie k c) ks)"



declare planifier.simps [simp del]













subsection \<open>The second loop, job by job\<close>





subsection \<open>Past and future of a job\<close>

text \<open>The keys of \<open>planWeeks\<close>, each once.\<close>

definition cles_futures :: "week list \<Rightarrow> nat \<Rightarrow> string list" where
  "cles_futures ws cur = remdups (map weekKey (drop cur ws))"

text \<open>What a job holds at the keys of the weeks from the current one on.\<close>

definition a_venir :: "week list \<Rightarrow> nat \<Rightarrow> chantier \<Rightarrow> int" where
  "a_venir ws cur c = somme (cles_futures ws cur) c"

text \<open>\<open>done\<close>: the sum of the entries the first loop keeps.\<close>

definition fait :: "week list \<Rightarrow> nat \<Rightarrow> chantier \<Rightarrow> int" where
  "fait ws cur c = sum_list (map snd (filter (passe_entry ws cur) (planif_of c)))"

text \<open>
  The capacity a preparer has left for the job \<open>c\<close> from the current week on: at each
  key, the availability less what the preparer's other active jobs hold.
\<close>

definition libre :: "week list \<Rightarrow> nat \<Rightarrow> (string \<times> (string \<times> stored) list) list \<Rightarrow> string
                      \<Rightarrow> chantier list \<Rightarrow> chantier \<Rightarrow> int" where
  "libre ws cur d name chs c =
     sum_list (map (\<lambda>k. max 0 (disponible d name k) - (charge name k chs - planifie k c))
                   (cles_futures ws cur))"

lemma set_cles_futures [simp]: "set (cles_futures ws cur) = weekKey ` set (drop cur ws)"
  by (simp add: cles_futures_def)












subsection \<open>Conservation, for the jobs written back for one preparer\<close>








lemma fait_nettoyer [simp]: "fait ws cur (nettoyer c) = fait ws cur c"
  by (simp add: fait_def planif_of_def)

lemma a_venir_nettoyer [simp]: "a_venir ws cur (nettoyer c) = a_venir ws cur c"
  by (simp add: a_venir_def somme_def)

lemma prepTime_nettoyer [simp]: "prepTime (nettoyer c) = prepTime c"
  by (simp add: nettoyer_def)

lemma libre_nettoyer [simp]:
  "libre ws cur d name (map nettoyer chs) (nettoyer c) = libre ws cur d name chs c"
  by (simp add: libre_def)




section \<open>The greedy walk on one job\<close>

subsection \<open>The entries the first loop keeps\<close>

definition pastPlanif :: "week list \<Rightarrow> nat \<Rightarrow> chantier \<Rightarrow> planif" where
  "pastPlanif ws cur c = filter (passe_entry ws cur) (planif_of c)"








subsection \<open>A preparer with one active job\<close>






subsection \<open>The job records after a run\<close>



subsection \<open>The load counted at the deadline week\<close>








end
